theory Spec2Isabelle
  imports Main "HOL-Library.Word"
begin

section \<open>Vulkan footprint builder: data model\<close>

text \<open>
  The development follows \<^verbatim>\<open>gapis/api/vulkan/footprint_builder.go\<close>. Vulkan
  handles, offsets and sizes are unsigned 64-bit integers (\<^verbatim>\<open>uint64\<close>), so
  addition and subtraction wrap around as in Go.
\<close>

type_synonym u64 = "64 word"
type_synonym u32 = "32 word"

definition vkWholeSize :: u64 where
  "vkWholeSize = 0xFFFFFFFFFFFFFFFF"

text \<open>Go runtime panics that the builder can raise are values of this type.\<close>

datatype panic = NilPointerDereference | IndexOutOfRange | SliceBoundsOutOfRange

text \<open>The two errors that \<^verbatim>\<open>shrink\<close> returns.\<close>

datatype shrink_error =
    shrinkOutOfMemBindingBound u64 u64
  | CannotShrinkNonSpan

text \<open>\<^verbatim>\<open>interval.U64Span\<close>: the half-open interval from \<open>Start\<close> to \<open>End\<close>.\<close>

record U64Span =
  Start :: u64
  End :: u64

text \<open>
  \<^verbatim>\<open>memorySpan\<close>. The field \<^verbatim>\<open>recordTo\<close> always points to the one
  \<^verbatim>\<open>memorySpanRecords\<close> of the builder, which the emitter below receives as part
  of its state. The field \<^verbatim>\<open>b\<close> (the defining behavior) is written and read by
  the dependency graph package only and is left out, here and in the other variables.
\<close>

record memorySpan =
  sp :: U64Span
  memory :: u64

definition memorySpan_size :: "memorySpan \<Rightarrow> u64" where
  "memorySpan_size s = End (sp s) - Start (sp s)"

definition memorySpan_span :: "memorySpan \<Rightarrow> U64Span" where
  "memorySpan_span s = sp s"

definition memorySpan_shrink :: "memorySpan \<Rightarrow> u64 \<Rightarrow> u64 \<Rightarrow> shrink_error + memorySpan" where
  "memorySpan_shrink s offset size0 =
     (let size1 = (if size0 = vkWholeSize then memorySpan_size s - offset else size0) in
      if offset + size1 < offset \<or> offset + size1 > memorySpan_size s
      then Inl (shrinkOutOfMemBindingBound offset size1)
      else Inr (s\<lparr>sp := \<lparr>Start = Start (sp s) + offset,
                          End = Start (sp s) + offset + size1\<rparr>\<rparr>))"

text \<open>\<^verbatim>\<open>duplicate\<close> copies the struct; on values the copy is the value itself.\<close>

definition memorySpan_duplicate :: "memorySpan \<Rightarrow> memorySpan" where
  "memorySpan_duplicate s = s"

text \<open>A label is identified by the number \<^verbatim>\<open>newLabel\<close> gave it.\<close>

type_synonym label = nat

text \<open>
  The backing data of a resource binding is a \<^verbatim>\<open>DefUseVariable\<close>; the builder
  only ever stores a memory span (\<^verbatim>\<open>newSpanResBinding\<close>) or a fresh label
  (\<^verbatim>\<open>newNonSpanResBinding\<close>) there.
\<close>

datatype backing = BackingSpan memorySpan | BackingLabel label

record resBinding =
  resourceOffset :: u64
  bindSize :: u64
  backingData :: backing

text \<open>
  The variables a behavior reads and writes. \<open>NilLabel\<close> is the nil
  \<^verbatim>\<open>*label\<close> that a lookup in a map of labels gives for a missing key.
\<close>

datatype DefUseVariable =
    VkHandle u64
  | Label label
  | NilLabel
  | ForwardPairedLabel nat
  | MemorySpan memorySpan
  | ResBinding resBinding
  | SparseImageMemoryBinding backing
  | CommandBufferCommand nat

text \<open>
  Modelled from the spec: \<^verbatim>\<open>dependencygraph.Behavior\<close> is not part of the
  builder's file. The glossary describes a behavior as a node carrying a command
  index, a read set, a write set and liveness flags; \<^verbatim>\<open>Read\<close> and
  \<^verbatim>\<open>Write\<close> add a variable to the read set and to the write set.
\<close>

record Behavior =
  Owner :: "u64 list"
  Reads :: "DefUseVariable list"
  Writes :: "DefUseVariable list"
  Alive :: bool
  Aborted :: bool

definition NewBehavior :: "u64 list \<Rightarrow> Behavior" where
  "NewBehavior idx = \<lparr>Owner = idx, Reads = [], Writes = [], Alive = False, Aborted = False\<rparr>"

definition Behavior_Read :: "Behavior \<Rightarrow> DefUseVariable \<Rightarrow> Behavior" where
  "Behavior_Read bh c = bh\<lparr>Reads := Reads bh @ [c]\<rparr>"

definition Behavior_Write :: "Behavior \<Rightarrow> DefUseVariable \<Rightarrow> Behavior" where
  "Behavior_Write bh c = bh\<lparr>Writes := Writes bh @ [c]\<rparr>"

section \<open>Interval lists\<close>

definition overlaps :: "U64Span \<Rightarrow> U64Span \<Rightarrow> bool" where
  "overlaps a b \<longleftrightarrow> Start a < End b \<and> Start b < End a"

text \<open>
  Modelled from the spec: \<^verbatim>\<open>interval.Intersect\<close> lives in the package
  \<^verbatim>\<open>core/math/interval\<close>. The spec describes it as the interval intersection of
  a span with an ordered interval list, giving the existing spans that overlap the
  span. As in its callers, the result is the index of the first overlapping span and
  the number of overlapping spans that follow each other from there.
\<close>

definition Intersect :: "U64Span list \<Rightarrow> U64Span \<Rightarrow> nat \<times> nat" where
  "Intersect l q =
     (let first = length (takeWhile (\<lambda>t. \<not> overlaps t q) l);
          count = length (takeWhile (\<lambda>t. overlaps t q) (drop first l))
      in (first, count))"

text \<open>An ordered interval list: every span is well formed and ends before the next starts.\<close>

definition ordered_spans :: "U64Span list \<Rightarrow> bool" where
  "ordered_spans l \<longleftrightarrow>
     list_all (\<lambda>t. Start t \<le> End t) l \<and> sorted_wrt (\<lambda>a b. End a \<le> Start b) l"

text \<open>
  Modelled from the spec: \<^verbatim>\<open>addBinding\<close> is defined in another file of the
  package. The spec: insert the binding preserving order; overlapping prior bindings
  are replaced over the overlap region. So of every prior span that overlaps the new
  one, the part before the new span and the part after it stay, each cut out with
  \<^verbatim>\<open>shrink\<close>, and a failing \<^verbatim>\<open>shrink\<close> is the error of the merge.
\<close>

definition cutOut :: "memorySpan \<Rightarrow> U64Span \<Rightarrow> shrink_error + memorySpan list" where
  "cutOut e q =
     (if \<not> overlaps (memorySpan_span e) q then Inr [e]
      else
        (case (if Start (sp e) < Start q
               then (case memorySpan_shrink (memorySpan_duplicate e) 0 (Start q - Start (sp e)) of
                       Inl err \<Rightarrow> Inl err | Inr h \<Rightarrow> Inr [h])
               else Inr []) of
           Inl err \<Rightarrow> Inl err
         | Inr hd_part \<Rightarrow>
            (case (if End q < End (sp e)
                   then (case memorySpan_shrink (memorySpan_duplicate e)
                                 (End q - Start (sp e)) (End (sp e) - End q) of
                           Inl err \<Rightarrow> Inl err | Inr t \<Rightarrow> Inr [t])
                   else Inr []) of
               Inl err \<Rightarrow> Inl err
             | Inr tl_part \<Rightarrow> Inr (hd_part @ tl_part))))"

fun cutOutAll :: "memorySpan list \<Rightarrow> U64Span \<Rightarrow> shrink_error + memorySpan list" where
  "cutOutAll [] q = Inr []"
| "cutOutAll (e # es) q =
     (case cutOut e q of
        Inl err \<Rightarrow> Inl err
      | Inr ps \<Rightarrow> (case cutOutAll es q of Inl err \<Rightarrow> Inl err | Inr rest \<Rightarrow> Inr (ps @ rest)))"

definition addBinding :: "memorySpan list \<Rightarrow> memorySpan \<Rightarrow> shrink_error + memorySpan list" where
  "addBinding l b =
     (case cutOutAll l (memorySpan_span b) of
        Inl err \<Rightarrow> Inl err
      | Inr l' \<Rightarrow>
          Inr (takeWhile (\<lambda>e. Start (sp e) < Start (sp b)) l' @ [b] @
               dropWhile (\<lambda>e. Start (sp e) < Start (sp b)) l'))"

section \<open>The dependency behavior emitter\<close>

text \<open>
  The state the emitter works on: \<^verbatim>\<open>memorySpanRecords.records\<close>, the recorded
  spans of every device memory, and the reader lists of the forward-paired labels
  (the behaviors are entered by their command index). A device memory without an
  entry has the nil slice, which reads as the empty list.
\<close>

record emitter_state =
  records :: "u64 \<rightharpoonup> memorySpan list"
  labelReadBehaviors :: "nat \<Rightarrow> u64 list list"

definition recordsOf :: "emitter_state \<Rightarrow> u64 \<Rightarrow> memorySpan list" where
  "recordsOf st m = (case records st m of None \<Rightarrow> [] | Some l \<Rightarrow> l)"

text \<open>One round of the loop of \<^verbatim>\<open>read\<close>: the new state, the behavior, and
  whether the variable leaves \<^verbatim>\<open>allSucceeded\<close> as it is.\<close>

fun read1 :: "emitter_state \<Rightarrow> Behavior \<Rightarrow> DefUseVariable \<Rightarrow> emitter_state \<times> Behavior \<times> bool" where
  "read1 st bh (VkHandle h) =
     (if h = 0 then (st, bh, False) else (st, Behavior_Read bh (VkHandle h), True))"
| "read1 st bh (ForwardPairedLabel n) =
     (st\<lparr>labelReadBehaviors := (labelReadBehaviors st)(n := labelReadBehaviors st n @ [Owner bh])\<rparr>,
      Behavior_Read bh (ForwardPairedLabel n), True)"
| "read1 st bh (MemorySpan c) =
     (if memory c = 0 then (st, bh, True)
      else
        (let l = recordsOf st (memory c);
             (first, count) = Intersect (map memorySpan_span l) (memorySpan_span c)
         in (st, fold (\<lambda>i b. Behavior_Read b (MemorySpan (l ! i))) [first ..< first + count] bh, True)))"
| "read1 st bh c = (st, Behavior_Read bh c, True)"

fun read_loop :: "emitter_state \<Rightarrow> Behavior \<Rightarrow> bool \<Rightarrow> DefUseVariable list
    \<Rightarrow> emitter_state \<times> Behavior \<times> bool" where
  "read_loop st bh allSucceeded [] = (st, bh, allSucceeded)"
| "read_loop st bh allSucceeded (c # cs) =
     (case read1 st bh c of (st', bh', ok) \<Rightarrow> read_loop st' bh' (allSucceeded \<and> ok) cs)"

definition read :: "emitter_state \<Rightarrow> Behavior \<Rightarrow> DefUseVariable list
    \<Rightarrow> emitter_state \<times> Behavior \<times> bool" where
  "read st bh cs = read_loop st bh True cs"

fun write1 :: "emitter_state \<Rightarrow> Behavior \<Rightarrow> DefUseVariable \<Rightarrow> emitter_state \<times> Behavior \<times> bool" where
  "write1 st bh (VkHandle h) =
     (if h = 0 then (st, bh, False) else (st, Behavior_Write bh (VkHandle h), True))"
| "write1 st bh (MemorySpan c0) =
     (if memory c0 = 0 then (st, bh, True)
      else
        (let c = memorySpan_duplicate c0 in
         case addBinding (recordsOf st (memory c)) c of
           Inl err \<Rightarrow> (st, bh, False)
         | Inr newList \<Rightarrow>
             (st\<lparr>records := (records st)(memory c \<mapsto> newList)\<rparr>,
              Behavior_Write bh (MemorySpan c), True)))"
| "write1 st bh c = (st, Behavior_Write bh c, True)"

fun write_loop :: "emitter_state \<Rightarrow> Behavior \<Rightarrow> bool \<Rightarrow> DefUseVariable list
    \<Rightarrow> emitter_state \<times> Behavior \<times> bool" where
  "write_loop st bh allSucceeded [] = (st, bh, allSucceeded)"
| "write_loop st bh allSucceeded (c # cs) =
     (case write1 st bh c of (st', bh', ok) \<Rightarrow> write_loop st' bh' (allSucceeded \<and> ok) cs)"

text \<open>\<^verbatim>\<open>write\<close> (the name is a keyword of the prover, hence the prime).\<close>

definition write' :: "emitter_state \<Rightarrow> Behavior \<Rightarrow> DefUseVariable list
    \<Rightarrow> emitter_state \<times> Behavior \<times> bool" where
  "write' st bh cs = write_loop st bh True cs"

definition modify :: "emitter_state \<Rightarrow> Behavior \<Rightarrow> DefUseVariable list
    \<Rightarrow> emitter_state \<times> Behavior \<times> bool" where
  "modify st bh cs =
     (case read st bh cs of
        (st', bh', allSucceeded) \<Rightarrow>
          if allSucceeded then write' st' bh' cs else (st', bh', False))"

text \<open>The value \<^verbatim>\<open>&memorySpan{memory: m, sp: interval.U64Span{Start: a, End: b}}\<close>.\<close>

definition memSpan :: "u64 \<Rightarrow> u64 \<Rightarrow> u64 \<Rightarrow> memorySpan" where
  "memSpan m a b = \<lparr>sp = \<lparr>Start = a, End = b\<rparr>, memory = m\<rparr>"

text \<open>The emitter state of a fresh builder (\<^verbatim>\<open>newFootprintBuilder\<close>).\<close>

definition emptyEmitter :: emitter_state where
  "emptyEmitter = \<lparr>records = Map.empty, labelReadBehaviors = (\<lambda>_. [])\<rparr>"

section \<open>The memory binding engine\<close>

text \<open>What the builder writes to the error log.\<close>

datatype log_entry =
    LogShrinkError shrink_error
  | LogInvalidIndexSize
  | LogExecutionOrderDiffers "u64 list" "u64 list"
  | LogInvalidFullCommandIndex

definition resBinding_size :: "resBinding \<Rightarrow> u64" where
  "resBinding_size bd = bindSize bd"

definition resBinding_span :: "resBinding \<Rightarrow> U64Span" where
  "resBinding_span bd =
     \<lparr>Start = resourceOffset bd, End = resourceOffset bd + resBinding_size bd\<rparr>"

definition resBinding_shrink :: "resBinding \<Rightarrow> u64 \<Rightarrow> u64 \<Rightarrow> shrink_error + resBinding" where
  "resBinding_shrink bd offset size0 =
     (let size1 = (if size0 = vkWholeSize then resBinding_size bd - offset else size0) in
      if offset + size1 < offset \<or> offset + size1 > resBinding_size bd
      then Inl (shrinkOutOfMemBindingBound offset size1)
      else
        (case backingData bd of
           BackingSpan s \<Rightarrow>
             Inr (bd\<lparr>bindSize := size1,
                     resourceOffset := resourceOffset bd + offset,
                     backingData := BackingSpan
                       (s\<lparr>sp := \<lparr>Start = Start (sp s) + offset,
                                  End = Start (sp s) + offset + size1\<rparr>\<rparr>)\<rparr>)
         | BackingLabel n \<Rightarrow>
             if offset \<noteq> 0 \<or> size1 \<noteq> resBinding_size bd
             then Inl CannotShrinkNonSpan
             else Inr bd))"

text \<open>\<^verbatim>\<open>duplicate\<close> copies the binding and, for a memory span, its backing data.\<close>

definition resBinding_duplicate :: "resBinding \<Rightarrow> resBinding" where
  "resBinding_duplicate bd =
     (case backingData bd of
        BackingSpan d \<Rightarrow> bd\<lparr>backingData := BackingSpan (memorySpan_duplicate d)\<rparr>
      | BackingLabel n \<Rightarrow> bd)"

text \<open>
  \<^verbatim>\<open>newSubBinding\<close>. The behavior is a pointer that may be nil, hence an option;
  the result is the pair \<^verbatim>\<open>(*resBinding, error)\<close>, of which exactly one is set.
\<close>

definition newSubBinding :: "emitter_state \<Rightarrow> Behavior option \<Rightarrow> resBinding \<Rightarrow> u64 \<Rightarrow> u64
    \<Rightarrow> emitter_state \<times> Behavior option \<times> (shrink_error + resBinding)" where
  "newSubBinding st bh bd offset size0 =
     (case resBinding_shrink (resBinding_duplicate bd) offset size0 of
        Inl err \<Rightarrow> (st, bh, Inl err)
      | Inr subBinding \<Rightarrow>
          (case bh of
             None \<Rightarrow> (st, None, Inr subBinding)
           | Some h \<Rightarrow>
               (case write' st h [ResBinding subBinding] of
                  (st', h', ok) \<Rightarrow> (st', Some h', Inr subBinding))))"

text \<open>The variable that stands for the backing data of a binding.\<close>

definition backingVar :: "backing \<Rightarrow> DefUseVariable" where
  "backingVar d = (case d of BackingSpan s \<Rightarrow> MemorySpan s | BackingLabel n \<Rightarrow> Label n)"

text \<open>
  The range that \<^verbatim>\<open>getSubBindingList\<close> asks \<^verbatim>\<open>interval.Intersect\<close> for,
  after its overflow check.
\<close>

definition requestedSize :: "u64 \<Rightarrow> u64 \<Rightarrow> u64" where
  "requestedSize offset size0 = (if offset + size0 < offset then vkWholeSize - offset else size0)"

definition requestedRange :: "u64 \<Rightarrow> u64 \<Rightarrow> U64Span" where
  "requestedRange offset size0 = \<lparr>Start = offset, End = offset + requestedSize offset size0\<rparr>"

text \<open>The offset and the size that the loop of \<^verbatim>\<open>getSubBindingList\<close> passes to
  \<^verbatim>\<open>newSubBinding\<close> for the binding \<open>b\<close>.\<close>

definition clipStart :: "u64 \<Rightarrow> u64 \<Rightarrow> resBinding \<Rightarrow> u64" where
  "clipStart offset size1 b =
     (if offset > Start (resBinding_span b) then offset else Start (resBinding_span b))"

definition clipEnd :: "u64 \<Rightarrow> u64 \<Rightarrow> resBinding \<Rightarrow> u64" where
  "clipEnd offset size1 b =
     (if offset + size1 < End (resBinding_span b) then offset + size1 else End (resBinding_span b))"

text \<open>One round of the loop of \<^verbatim>\<open>getSubBindingList\<close>, on the binding \<open>b\<close>.\<close>

definition subBindingStep :: "u64 \<Rightarrow> u64 \<Rightarrow> resBinding
    \<Rightarrow> emitter_state \<times> Behavior option \<times> resBinding list \<times> log_entry list
    \<Rightarrow> emitter_state \<times> Behavior option \<times> resBinding list \<times> log_entry list" where
  "subBindingStep offset size1 b acc =
     (case acc of (st, bh, subBindings, logs) \<Rightarrow>
        (let start = clipStart offset size1 b;
             end = clipEnd offset size1 b;
             (st1, bh1) = (case bh of
                             None \<Rightarrow> (st, None)
                           | Some h \<Rightarrow> (case read st h [ResBinding b] of
                                         (st', h', ok) \<Rightarrow> (st', Some h')))
         in case newSubBinding st1 bh1 b (start - Start (resBinding_span b)) (end - start) of
              (st2, bh2, Inl err) \<Rightarrow> (st2, bh2, subBindings, logs @ [LogShrinkError err])
            | (st2, bh2, Inr newB) \<Rightarrow> (st2, bh2, subBindings @ [newB], logs)))"

definition getSubBindingList :: "emitter_state \<Rightarrow> Behavior option \<Rightarrow> resBinding list \<Rightarrow> u64 \<Rightarrow> u64
    \<Rightarrow> emitter_state \<times> Behavior option \<times> resBinding list \<times> log_entry list" where
  "getSubBindingList st bh l offset size0 =
     (let size1 = (if offset + size0 < offset then vkWholeSize - offset else size0);
          (first, count) = Intersect (map resBinding_span l) \<lparr>Start = offset, End = offset + size1\<rparr>
      in if count = 0 then (st, bh, [], [])
         else fold (\<lambda>i. subBindingStep offset size1 (l ! i)) [first ..< first + count]
                (st, bh, [], []))"

definition getBoundData :: "emitter_state \<Rightarrow> Behavior option \<Rightarrow> resBinding list \<Rightarrow> u64 \<Rightarrow> u64
    \<Rightarrow> emitter_state \<times> Behavior option \<times> DefUseVariable list \<times> log_entry list" where
  "getBoundData st bh l offset size0 =
     (case getSubBindingList st bh l offset size0 of
        (st', bh', bindingList, logs) \<Rightarrow>
          (st', bh', map (\<lambda>b. backingVar (backingData b)) bindingList, logs))"

text \<open>
  The sub-binding list in the words of the spec: the bindings that intersect the
  range, in order, each clipped to the intersection, with the same backing data and
  the memory span shrunk to it; a binding that is not backed by a memory span may
  only be returned whole.
\<close>

definition clipBinding :: "U64Span \<Rightarrow> resBinding \<Rightarrow> resBinding option" where
  "clipBinding q b =
     (let start = max (Start q) (Start (resBinding_span b));
          end = min (End q) (End (resBinding_span b))
      in case backingData b of
           BackingSpan s \<Rightarrow>
             Some \<lparr>resourceOffset = start, bindSize = end - start,
                   backingData = BackingSpan
                     (s\<lparr>sp := \<lparr>Start = Start (sp s) + (start - Start (resBinding_span b)),
                                End = Start (sp s) + (start - Start (resBinding_span b))
                                      + (end - start)\<rparr>\<rparr>)\<rparr>
         | BackingLabel n \<Rightarrow>
             if start = Start (resBinding_span b) \<and> end = End (resBinding_span b)
             then Some b else None)"

definition spec_subBindingList :: "resBinding list \<Rightarrow> U64Span \<Rightarrow> resBinding list" where
  "spec_subBindingList l q =
     List.map_filter (clipBinding q) (filter (\<lambda>b. overlaps (resBinding_span b) q) l)"

text \<open>The value \<^verbatim>\<open>&resBinding{resourceOffset: off, bindSize: n, backingData: d}\<close>.\<close>

definition mkBinding :: "u64 \<Rightarrow> u64 \<Rightarrow> backing \<Rightarrow> resBinding" where
  "mkBinding off n d = \<lparr>resourceOffset = off, bindSize = n, backingData = d\<rparr>"

text \<open>What \<^verbatim>\<open>shrink\<close> gives for the duplicate of \<open>b\<close> in that round.\<close>

definition subBindingOf :: "u64 \<Rightarrow> u64 \<Rightarrow> resBinding \<Rightarrow> shrink_error + resBinding" where
  "subBindingOf offset size1 b =
     resBinding_shrink (resBinding_duplicate b)
       (clipStart offset size1 b - Start (resBinding_span b))
       (clipEnd offset size1 b - clipStart offset size1 b)"

definition keptSubBindings :: "u64 \<Rightarrow> u64 \<Rightarrow> resBinding list \<Rightarrow> resBinding list" where
  "keptSubBindings offset size1 bs =
     concat (map (\<lambda>b. case subBindingOf offset size1 b of Inl err \<Rightarrow> [] | Inr newB \<Rightarrow> [newB]) bs)"

definition loggedShrinkErrors :: "u64 \<Rightarrow> u64 \<Rightarrow> resBinding list \<Rightarrow> log_entry list" where
  "loggedShrinkErrors offset size1 bs =
     concat (map (\<lambda>b. case subBindingOf offset size1 b of
                         Inl err \<Rightarrow> [LogShrinkError err] | Inr newB \<Rightarrow> []) bs)"

section \<open>Reading the bound index buffer\<close>

datatype VkIndexType =
    VK_INDEX_TYPE_UINT16
  | VK_INDEX_TYPE_UINT32
  | VkIndexType_other u32

definition VkIndexType_size :: "VkIndexType \<Rightarrow> int" where
  "VkIndexType_size t =
     (case t of VK_INDEX_TYPE_UINT16 \<Rightarrow> 2 | VK_INDEX_TYPE_UINT32 \<Rightarrow> 4 | VkIndexType_other v \<Rightarrow> 0)"

text \<open>
  \<^verbatim>\<open>commandBufferExecutionState\<close>, with the fields that the functions below use
  (the bound descriptor sets are left out).
\<close>

record commandBufferExecutionState =
  vertexBufferResBindings :: "(u32 \<times> resBinding list) list"
  indexBufferResBindings :: "resBinding list"
  indexType :: VkIndexType
  pipeline :: label
  dynamicState :: label

text \<open>The commands that \<^verbatim>\<open>readBoundIndexBuffer\<close> is called for, with the two
  fields of \<^verbatim>\<open>VkCmdDrawIndexed\<close> that it reads: \<^verbatim>\<open>IndexCount\<close> and
  \<^verbatim>\<open>FirstIndex\<close>.\<close>

datatype indexed_draw =
    VkCmdDrawIndexed u32 u32
  | VkCmdDrawIndexedIndirect

fun IndexCount :: "indexed_draw \<Rightarrow> u32" where
  "IndexCount (VkCmdDrawIndexed cnt fi) = cnt"
| "IndexCount VkCmdDrawIndexedIndirect = 0"

fun FirstIndex :: "indexed_draw \<Rightarrow> u32" where
  "FirstIndex (VkCmdDrawIndexed cnt fi) = fi"
| "FirstIndex VkCmdDrawIndexedIndirect = 0"

text \<open>The offset and the size that \<^verbatim>\<open>readBoundIndexBuffer\<close> passes to
  \<^verbatim>\<open>getBoundData\<close>.\<close>

definition indexReadOffset :: "VkIndexType \<Rightarrow> indexed_draw \<Rightarrow> u64" where
  "indexReadOffset t cmd =
     (let indexSize = (word_of_int (VkIndexType_size t) :: u64) in
      case cmd of
        VkCmdDrawIndexed cnt fi \<Rightarrow> 0 + ucast fi * indexSize
      | VkCmdDrawIndexedIndirect \<Rightarrow> 0)"

definition indexReadSize :: "VkIndexType \<Rightarrow> indexed_draw \<Rightarrow> u64" where
  "indexReadSize t cmd =
     (let indexSize = (word_of_int (VkIndexType_size t) :: u64) in
      case cmd of
        VkCmdDrawIndexed cnt fi \<Rightarrow> ucast cnt * indexSize
      | VkCmdDrawIndexedIndirect \<Rightarrow> vkWholeSize)"

definition readBoundIndexBuffer :: "emitter_state \<Rightarrow> Behavior \<Rightarrow> commandBufferExecutionState
    \<Rightarrow> indexed_draw \<Rightarrow> emitter_state \<times> Behavior \<times> log_entry list" where
  "readBoundIndexBuffer st bh currentCmdBufState cmd =
     (let indexSize = (word_of_int (VkIndexType_size (indexType currentCmdBufState)) :: u64);
          logs0 = (if indexSize = 0 then [LogInvalidIndexSize] else []);
          offset = indexReadOffset (indexType currentCmdBufState) cmd;
          size0 = indexReadSize (indexType currentCmdBufState) cmd
      in case getBoundData st (Some bh) (indexBufferResBindings currentCmdBufState) offset size0 of
           (st1, bh1, dataToRead, logs1) \<Rightarrow>
             (case read st1 (case bh1 of Some h \<Rightarrow> h | None \<Rightarrow> bh) dataToRead of
                (st2, bh2, ok) \<Rightarrow> (st2, bh2, logs0 @ logs1)))"

text \<open>The range of claim C7 as the spec words it: from \<open>firstIndex * indexSize\<close> to
  \<open>count * indexSize\<close>.\<close>

definition spec_indexRange :: "VkIndexType \<Rightarrow> indexed_draw \<Rightarrow> U64Span" where
  "spec_indexRange t cmd =
     \<lparr>Start = ucast (FirstIndex cmd) * word_of_int (VkIndexType_size t),
      End = ucast (IndexCount cmd) * word_of_int (VkIndexType_size t)\<rparr>"

section \<open>The state of the builder\<close>

text \<open>\<^verbatim>\<open>commandBuffer\<close>, \<^verbatim>\<open>fence\<close>: the labels of a command buffer and of a fence.\<close>

record commandBuffer =
  cbBegin :: label
  cbEnd :: label
  renderPassBegin :: label

record fence =
  signal :: label
  unsignal :: label

text \<open>
  \<^verbatim>\<open>commandBufferCommand\<close>. Commands are compared by pointer in the source, so every
  command carries the number it was allocated with. The closure \<^verbatim>\<open>behave\<close> is not
  part of the value: running it is entered in the footprint (see below).
\<close>

record commandBufferCommand =
  cbcId :: nat
  isCmdExecuteCommands :: bool
  secondaryCommandBuffers :: "u64 list"

text \<open>\<^verbatim>\<open>submittedCommand\<close>; \<open>subCmdIdx\<close> holds the elements of its \<^verbatim>\<open>id\<close>, which the
  builder only compares with \<^verbatim>\<open>Equals\<close>, element by element.\<close>

record submittedCommand =
  subCmdIdx :: "u64 list"
  cmd :: commandBufferCommand
  parentCmd :: "commandBufferCommand option"

record queueSubmitInfo =
  queue :: u64
  began :: bool
  queued :: label
  done' :: label
  waitSemaphores :: "u64 list"
  signalSemaphores :: "u64 list"
  signalFence :: u64
  pendingCommands :: "submittedCommand list"

text \<open>
  A slice of type \<^verbatim>\<open>api.SubCmdIdx\<close>: its elements, and the number of elements
  that its capacity has room for beyond its length. The slice expression
  \<^verbatim>\<open>s[0:n]\<close> panics when \<open>n\<close> is above the capacity of \<open>s\<close>.
\<close>

record SubCmdIdx =
  indices :: "u64 list"
  spare :: nat

definition capacity :: "SubCmdIdx \<Rightarrow> nat" where
  "capacity s = length (indices s) + spare s"

text \<open>
  \<^verbatim>\<open>queueExecutionState\<close>, with the fields that \<^verbatim>\<open>rollOutExecuted\<close> and
  \<^verbatim>\<open>updateCurrentCommand\<close> need. The execution states of the command buffers, the
  subpasses and the framebuffer are read by the \<^verbatim>\<open>behave\<close> closures only and are
  left out; \<open>currentSubmitInfo\<close> holds the command id of the submit it points to.
\<close>

record queueExecutionState =
  currentCommand :: SubCmdIdx
  lastSubmitID :: u64
  currentSubmitInfo :: "u64 option"


text \<open>
  \<^verbatim>\<open>imageLayoutAndData\<close>. The sparse bindings are a map of maps in four levels
  (aspect, layer, level, block index); the model keeps each level as an association
  list and visits it in list order, where Go leaves the order of a map open.
\<close>

record imageLayoutAndData =
  layout :: label
  opaqueData :: "resBinding list"
  sparseData :: "(u32 \<times> (u32 \<times> (u32 \<times> (u64 \<times> backing) list) list) list) list"

text \<open>
  \<^verbatim>\<open>FootprintBuilder\<close>. The map \<^verbatim>\<open>handles\<close> only caches one \<^verbatim>\<open>vkHandle\<close>
  per value and is left out: \<^verbatim>\<open>toVkHandle h\<close> is the variable \<open>VkHandle h\<close>.
  \<open>nextCommandId\<close> numbers the commands that \<^verbatim>\<open>newCommand\<close> allocates.
\<close>

record FootprintBuilder =
  emitter :: emitter_state
  commands :: "u64 \<rightharpoonup> commandBufferCommand list"
  semaphoreSignals :: "u64 \<rightharpoonup> label"
  fences :: "u64 \<rightharpoonup> fence"
  commandBuffers :: "u64 \<rightharpoonup> commandBuffer"
  images :: "u64 \<rightharpoonup> imageLayoutAndData"
  buffers :: "u64 \<rightharpoonup> resBinding list"
  executionStates :: "u64 \<rightharpoonup> queueExecutionState"
  submitInfos :: "u64 \<rightharpoonup> queueSubmitInfo"
  swapchainImageAcquired :: "u64 \<rightharpoonup> label list"
  swapchainImagePresented :: "u64 \<rightharpoonup> label list"
  nextCommandId :: nat

definition newFootprintBuilder :: FootprintBuilder where
  "newFootprintBuilder =
     \<lparr>emitter = emptyEmitter, commands = Map.empty, semaphoreSignals = Map.empty,
      fences = Map.empty, commandBuffers = Map.empty, images = Map.empty,
      buffers = Map.empty, executionStates = Map.empty, submitInfos = Map.empty,
      swapchainImageAcquired = Map.empty, swapchainImagePresented = Map.empty,
      nextCommandId = 0\<rparr>"

text \<open>
  Modelled from the spec: \<^verbatim>\<open>dependencygraph.Footprint\<close> is the ordered sequence of
  the behaviors added with \<^verbatim>\<open>AddBehavior\<close>. What a \<^verbatim>\<open>behave\<close> closure adds
  when \<^verbatim>\<open>runCommand\<close> calls it is kept as one entry that names the submitted
  command.
\<close>

datatype footprint_entry =
    AddedBehavior Behavior
  | RanCommand submittedCommand

type_synonym Footprint = "footprint_entry list"

text \<open>The label variable that a lookup in a map of labels gives.\<close>

definition labelVar :: "label option \<Rightarrow> DefUseVariable" where
  "labelVar l = (case l of None \<Rightarrow> NilLabel | Some n \<Rightarrow> Label n)"

text \<open>Reading, writing and modifying with the emitter state of the builder.\<close>

definition vb_read :: "FootprintBuilder \<Rightarrow> Behavior \<Rightarrow> DefUseVariable list
    \<Rightarrow> FootprintBuilder \<times> Behavior \<times> bool" where
  "vb_read vb bh cs =
     (case read (emitter vb) bh cs of (e, bh', ok) \<Rightarrow> (vb\<lparr>emitter := e\<rparr>, bh', ok))"

definition vb_write :: "FootprintBuilder \<Rightarrow> Behavior \<Rightarrow> DefUseVariable list
    \<Rightarrow> FootprintBuilder \<times> Behavior \<times> bool" where
  "vb_write vb bh cs =
     (case write' (emitter vb) bh cs of (e, bh', ok) \<Rightarrow> (vb\<lparr>emitter := e\<rparr>, bh', ok))"

definition vb_modify :: "FootprintBuilder \<Rightarrow> Behavior \<Rightarrow> DefUseVariable list
    \<Rightarrow> FootprintBuilder \<times> Behavior \<times> bool" where
  "vb_modify vb bh cs =
     (case modify (emitter vb) bh cs of (e, bh', ok) \<Rightarrow> (vb\<lparr>emitter := e\<rparr>, bh', ok))"

section \<open>Recording commands\<close>

definition commandsOf :: "FootprintBuilder \<Rightarrow> u64 \<Rightarrow> commandBufferCommand list" where
  "commandsOf vb vkCb = (case commands vb vkCb of None \<Rightarrow> [] | Some l \<Rightarrow> l)"

text \<open>\<^verbatim>\<open>newCommand\<close>: the new command, or nil for a command buffer without shadow entry.\<close>

definition newCommand :: "FootprintBuilder \<Rightarrow> Behavior \<Rightarrow> u64
    \<Rightarrow> FootprintBuilder \<times> Behavior \<times> commandBufferCommand option" where
  "newCommand vb bh vkCb =
     (let cbc = \<lparr>cbcId = nextCommandId vb, isCmdExecuteCommands = False,
                 secondaryCommandBuffers = []\<rparr>;
          vb0 = vb\<lparr>nextCommandId := Suc (nextCommandId vb)\<rparr>
      in case vb_read vb0 bh [VkHandle vkCb] of
           (vb1, bh1, ok1) \<Rightarrow>
             (case commandBuffers vb1 vkCb of
                Some cb \<Rightarrow>
                  (case vb_read vb1 bh1 [Label (cbBegin cb)] of
                     (vb2, bh2, ok2) \<Rightarrow>
                       (case vb_write vb2 bh2 [CommandBufferCommand (cbcId cbc)] of
                          (vb3, bh3, ok3) \<Rightarrow>
                            (vb3\<lparr>commands := (commands vb3)(vkCb \<mapsto> commandsOf vb3 vkCb @ [cbc])\<rparr>,
                             bh3, Some cbc)))
              | None \<Rightarrow> (vb1, bh1, None)))"

text \<open>The arms of the switch of \<^verbatim>\<open>BuildFootprint\<close> for
  \<^verbatim>\<open>VkResetCommandBuffer\<close> and \<^verbatim>\<open>VkBeginCommandBuffer\<close>.\<close>

definition BuildFootprint_VkResetCommandBuffer :: "FootprintBuilder \<Rightarrow> Behavior \<Rightarrow> u64
    \<Rightarrow> FootprintBuilder \<times> Behavior" where
  "BuildFootprint_VkResetCommandBuffer vb bh vkCb =
     (case vb_read vb bh [VkHandle vkCb] of
        (vb1, bh1, ok1) \<Rightarrow>
          (case commandBuffers vb1 vkCb of
             Some cb \<Rightarrow>
               (case vb_write vb1 bh1 [Label (cbBegin cb)] of
                  (vb2, bh2, ok2) \<Rightarrow>
                    (case vb_write vb2 bh2 [Label (cbEnd cb)] of
                       (vb3, bh3, ok3) \<Rightarrow>
                         (vb3\<lparr>commands := (commands vb3)(vkCb \<mapsto> [])\<rparr>, bh3)))
           | None \<Rightarrow> (vb1, bh1)))"

definition BuildFootprint_VkBeginCommandBuffer :: "FootprintBuilder \<Rightarrow> Behavior \<Rightarrow> u64
    \<Rightarrow> FootprintBuilder \<times> Behavior" where
  "BuildFootprint_VkBeginCommandBuffer vb bh vkCb =
     (case vb_read vb bh [VkHandle vkCb] of
        (vb1, bh1, ok1) \<Rightarrow>
          (case commandBuffers vb1 vkCb of
             Some cb \<Rightarrow>
               (case vb_write vb1 bh1 [Label (cbBegin cb)] of
                  (vb2, bh2, ok2) \<Rightarrow>
                    (vb2\<lparr>commands := (commands vb2)(vkCb \<mapsto> [])\<rparr>, bh2))
           | None \<Rightarrow> (vb1, bh1)))"

text \<open>Recording one command after the other, as the \<^verbatim>\<open>vkCmd*\<close> arms do through
  \<^verbatim>\<open>newCommand\<close>: the state afterwards and the commands that were allocated.\<close>

fun recordCommands :: "FootprintBuilder \<Rightarrow> Behavior \<Rightarrow> u64 list
    \<Rightarrow> FootprintBuilder \<times> (u64 \<times> commandBufferCommand) list" where
  "recordCommands vb bh [] = (vb, [])"
| "recordCommands vb bh (vkCb # rest) =
     (case newCommand vb bh vkCb of
        (vb', bh', r) \<Rightarrow>
          (case recordCommands vb' bh rest of
             (vb'', recorded) \<Rightarrow>
               (vb'', (case r of None \<Rightarrow> [] | Some cbc \<Rightarrow> [(vkCb, cbc)]) @ recorded)))"

section \<open>Image data and presentation\<close>

text \<open>The sparse bindings of an image, in the order in which the four nested loops
  of \<^verbatim>\<open>getImageData\<close> visit them.\<close>

definition sparseBlocks :: "imageLayoutAndData \<Rightarrow> backing list" where
  "sparseBlocks img =
     concat (map (\<lambda>(aspect, layers).
       concat (map (\<lambda>(layer, levels).
         concat (map (\<lambda>(level, blocks). map snd blocks) levels)) layers)) (sparseData img))"

text \<open>The loop over the sparse bindings: each block is read when the behavior is
  not nil, and its backing data is appended to the result.\<close>

fun sparseLoop :: "FootprintBuilder \<Rightarrow> Behavior option \<Rightarrow> DefUseVariable list \<Rightarrow> backing list
    \<Rightarrow> FootprintBuilder \<times> Behavior option \<times> DefUseVariable list" where
  "sparseLoop vb bh data [] = (vb, bh, data)"
| "sparseLoop vb bh data (blocki # rest) =
     (case bh of
        None \<Rightarrow> sparseLoop vb None (data @ [backingVar blocki]) rest
      | Some h \<Rightarrow>
          (case vb_read vb h [SparseImageMemoryBinding blocki] of
             (vb', h', ok) \<Rightarrow> sparseLoop vb' (Some h') (data @ [backingVar blocki]) rest))"

text \<open>
  \<^verbatim>\<open>getImageData\<close>. \<^verbatim>\<open>vb.images[vkImg]\<close> is a nil pointer for an image
  without shadow entry, and \<^verbatim>\<open>vb.images[vkImg].layout\<close> then panics. The second
  definition is the part of the function from its own nil check on.
\<close>

definition getImageData_bound :: "FootprintBuilder \<Rightarrow> Behavior option \<Rightarrow> u64
    \<Rightarrow> FootprintBuilder \<times> Behavior option \<times> DefUseVariable list \<times> log_entry list" where
  "getImageData_bound vb bh vkImg =
     (case images vb vkImg of
        None \<Rightarrow> (vb, bh, [], [])
      | Some img \<Rightarrow>
          (case getBoundData (emitter vb) bh (opaqueData img) 0 vkWholeSize of
             (e1, bh1, data, logs) \<Rightarrow>
               (case sparseLoop (vb\<lparr>emitter := e1\<rparr>) bh1 data (sparseBlocks img) of
                  (vb2, bh2, data2) \<Rightarrow> (vb2, bh2, data2, logs))))"

definition getImageData :: "FootprintBuilder \<Rightarrow> Behavior option \<Rightarrow> u64
    \<Rightarrow> panic + (FootprintBuilder \<times> Behavior option \<times> DefUseVariable list \<times> log_entry list)" where
  "getImageData vb bh vkImg =
     (case bh of
        None \<Rightarrow> Inr (getImageData_bound vb None vkImg)
      | Some h \<Rightarrow>
          (case vb_read vb h [VkHandle vkImg] of
             (vb1, h1, ok1) \<Rightarrow>
               if \<not> ok1 then Inr (vb1, Some h1, [], [])
               else
                 (case images vb1 vkImg of
                    None \<Rightarrow> Inl NilPointerDereference
                  | Some img \<Rightarrow>
                      (case vb_read vb1 h1 [Label (layout img)] of
                         (vb2, h2, ok2) \<Rightarrow>
                           if \<not> ok2 then Inr (vb2, Some h2, [], [])
                           else Inr (getImageData_bound vb2 (Some h2) vkImg)))))"

text \<open>\<^verbatim>\<open>getImageLayoutAndData\<close>; its callers pass a behavior that is not nil.\<close>

definition getImageLayoutAndData :: "FootprintBuilder \<Rightarrow> Behavior \<Rightarrow> u64
    \<Rightarrow> panic + (FootprintBuilder \<times> Behavior \<times> label \<times> DefUseVariable list \<times> log_entry list)" where
  "getImageLayoutAndData vb bh vkImg =
     (case vb_read vb bh [VkHandle vkImg] of
        (vb1, bh1, ok1) \<Rightarrow>
          (case images vb1 vkImg of
             None \<Rightarrow> Inl NilPointerDereference
           | Some img \<Rightarrow>
               (case getImageData vb1 (Some bh1) vkImg of
                  Inl p \<Rightarrow> Inl p
                | Inr (vb2, bh2, data, logs) \<Rightarrow>
                    Inr (vb2, (case bh2 of Some h \<Rightarrow> h | None \<Rightarrow> bh1), layout img, data, logs))))"

text \<open>Indexing a slice of labels that is found in a map: a missing key gives the nil
  slice, and an index that is not below the length panics.\<close>

definition labelAt :: "label list option \<Rightarrow> u32 \<Rightarrow> panic + label" where
  "labelAt ls i =
     (case ls of
        None \<Rightarrow> Inl IndexOutOfRange
      | Some l \<Rightarrow> if unat i < length l then Inr (l ! unat i) else Inl IndexOutOfRange)"

text \<open>The loop over the wait semaphores that fills the extra behavior of a present.\<close>

fun presentWaitLoop :: "FootprintBuilder \<Rightarrow> Behavior \<Rightarrow> u64 \<Rightarrow> u64 list
    \<Rightarrow> FootprintBuilder \<times> Behavior" where
  "presentWaitLoop vb extraBh vkQueue [] = (vb, extraBh)"
| "presentWaitLoop vb extraBh vkQueue (vkSp # rest) =
     (case vb_read vb extraBh [VkHandle vkQueue] of
        (vb1, bh1, ok1) \<Rightarrow>
          (case vb_read vb1 bh1 [VkHandle vkSp] of
             (vb2, bh2, ok2) \<Rightarrow>
               if ok2
               then (case vb_read vb2 bh2 [labelVar (semaphoreSignals vb2 vkSp)] of
                       (vb3, bh3, ok3) \<Rightarrow> presentWaitLoop vb3 bh3 vkQueue rest)
               else presentWaitLoop vb2 bh2 vkQueue rest))"

text \<open>
  One round of the loop over the swapchains of \<^verbatim>\<open>VkQueuePresentKHR\<close>, for the
  swapchain \<open>vkSw\<close> and its image index \<open>imgID\<close>. The handle of the image comes from
  the state of the API, here the function \<open>swapchainImage\<close>.
\<close>

definition presentOne :: "(u64 \<Rightarrow> u32 \<Rightarrow> u64) \<Rightarrow> u64 \<Rightarrow> u64 \<Rightarrow> u64 list
    \<Rightarrow> FootprintBuilder \<times> Footprint \<times> Behavior \<times> log_entry list \<Rightarrow> u64 \<times> u32
    \<Rightarrow> panic + (FootprintBuilder \<times> Footprint \<times> Behavior \<times> log_entry list)" where
  "presentOne swapchainImage cmdId vkQueue waitSems acc sw =
     (case acc of (vb, ft, bh, logs) \<Rightarrow>
      case sw of (vkSw, imgID) \<Rightarrow>
      case vb_read vb bh [VkHandle vkSw] of (vb1, bh1, ok1) \<Rightarrow>
      case getImageLayoutAndData vb1 bh1 (swapchainImage vkSw imgID) of
        Inl p \<Rightarrow> Inl p
      | Inr (vb2, bh2, imgLayout, imgData, logs2) \<Rightarrow>
         (case vb_read vb2 bh2 [Label imgLayout] of (vb3, bh3, ok3) \<Rightarrow>
          case vb_read vb3 bh3 imgData of (vb4, bh4, ok4) \<Rightarrow>
          case presentWaitLoop vb4 (NewBehavior [cmdId]) vkQueue waitSems of (vb5, extraBh1) \<Rightarrow>
          case labelAt (swapchainImageAcquired vb5 vkSw) imgID of
            Inl p \<Rightarrow> Inl p
          | Inr acquired \<Rightarrow>
             (case vb_read vb5 extraBh1 [Label acquired] of (vb6, extraBh2, ok6) \<Rightarrow>
              case labelAt (swapchainImagePresented vb6 vkSw) imgID of
                Inl p \<Rightarrow> Inl p
              | Inr presented \<Rightarrow>
                 (case vb_write vb6 extraBh2 [Label presented] of (vb7, extraBh3, ok7) \<Rightarrow>
                  Inr (vb7, ft @ [AddedBehavior (extraBh3\<lparr>Alive := True\<rparr>)], bh4,
                       logs @ logs2)))))"

fun presentLoop :: "(u64 \<Rightarrow> u32 \<Rightarrow> u64) \<Rightarrow> u64 \<Rightarrow> u64 \<Rightarrow> u64 list
    \<Rightarrow> FootprintBuilder \<times> Footprint \<times> Behavior \<times> log_entry list \<Rightarrow> (u64 \<times> u32) list
    \<Rightarrow> panic + (FootprintBuilder \<times> Footprint \<times> Behavior \<times> log_entry list)" where
  "presentLoop swapchainImage cmdId vkQueue waitSems acc [] = Inr acc"
| "presentLoop swapchainImage cmdId vkQueue waitSems acc (sw # rest) =
     (case presentOne swapchainImage cmdId vkQueue waitSems acc sw of
        Inl p \<Rightarrow> Inl p
      | Inr acc' \<Rightarrow> presentLoop swapchainImage cmdId vkQueue waitSems acc' rest)"

text \<open>The loop over the wait semaphores on the behavior of the present itself.\<close>

fun presentSemaphoreLoop :: "FootprintBuilder \<Rightarrow> Behavior \<Rightarrow> u64 list
    \<Rightarrow> FootprintBuilder \<times> Behavior" where
  "presentSemaphoreLoop vb bh [] = (vb, bh)"
| "presentSemaphoreLoop vb bh (vkSp # rest) =
     (case vb_read vb bh [VkHandle vkSp] of
        (vb1, bh1, ok1) \<Rightarrow>
          if ok1
          then (case vb_read vb1 bh1 [labelVar (semaphoreSignals vb1 vkSp)] of
                  (vb2, bh2, ok2) \<Rightarrow> presentSemaphoreLoop vb2 bh2 rest)
          else presentSemaphoreLoop vb1 bh1 rest)"

text \<open>
  The arm of the switch of \<^verbatim>\<open>BuildFootprint\<close> for \<^verbatim>\<open>VkQueuePresentKHR\<close>, for a
  command whose mutation succeeded: \<open>presents\<close> pairs every swapchain of the present
  info with its image index.
\<close>

definition BuildFootprint_VkQueuePresentKHR :: "(u64 \<Rightarrow> u32 \<Rightarrow> u64) \<Rightarrow> FootprintBuilder
    \<Rightarrow> Footprint \<Rightarrow> Behavior \<Rightarrow> u64 \<Rightarrow> u64 \<Rightarrow> u64 list \<Rightarrow> (u64 \<times> u32) list
    \<Rightarrow> panic + (FootprintBuilder \<times> Footprint \<times> Behavior \<times> log_entry list)" where
  "BuildFootprint_VkQueuePresentKHR swapchainImage vb ft bh cmdId vkQueue waitSems presents =
     (case vb_read vb bh [VkHandle vkQueue] of
        (vb1, bh1, ok1) \<Rightarrow>
          (case presentSemaphoreLoop vb1 bh1 waitSems of
             (vb2, bh2) \<Rightarrow>
               presentLoop swapchainImage cmdId vkQueue waitSems (vb2, ft, bh2, []) presents))"

text \<open>What the extra behavior of a present reads before the acquired label: for every
  wait semaphore the queue, the semaphore and the signal label of the semaphore,
  null handles left out.\<close>

definition presentWaitReads :: "FootprintBuilder \<Rightarrow> u64 \<Rightarrow> u64 list \<Rightarrow> DefUseVariable list" where
  "presentWaitReads vb vkQueue waitSems =
     concat (map (\<lambda>vkSp.
        (if vkQueue = 0 then [] else [VkHandle vkQueue]) @
        (if vkSp = 0 then [] else [VkHandle vkSp, labelVar (semaphoreSignals vb vkSp)])) waitSems)"

text \<open>Two states of the builder that differ at most in the emitter state.\<close>

definition onlyEmitterChanged :: "FootprintBuilder \<Rightarrow> FootprintBuilder \<Rightarrow> bool" where
  "onlyEmitterChanged vb vb' \<longleftrightarrow> vb' = vb\<lparr>emitter := emitter vb'\<rparr>"

text \<open>The extra behavior that a present adds for the swapchain \<open>vkSw\<close> and the image
  index \<open>imgID\<close>, when both labels exist.\<close>

definition presentExtraBehavior :: "FootprintBuilder \<Rightarrow> u64 \<Rightarrow> u64 \<Rightarrow> u64 list \<Rightarrow> u64 \<times> u32
    \<Rightarrow> Behavior" where
  "presentExtraBehavior vb cmdId vkQueue waitSems sw =
     (case sw of (vkSw, imgID) \<Rightarrow>
        \<lparr>Owner = [cmdId],
         Reads = presentWaitReads vb vkQueue waitSems @
                 [Label (the (swapchainImageAcquired vb vkSw) ! unat imgID)],
         Writes = [Label (the (swapchainImagePresented vb vkSw) ! unat imgID)],
         Alive = True, Aborted = False\<rparr>)"

text \<open>A present can be stamped when the image and both labels have shadow entries.\<close>

definition presentable :: "(u64 \<Rightarrow> u32 \<Rightarrow> u64) \<Rightarrow> FootprintBuilder \<Rightarrow> u64 \<times> u32 \<Rightarrow> bool" where
  "presentable swapchainImage vb sw =
     (case sw of (vkSw, imgID) \<Rightarrow>
        images vb (swapchainImage vkSw imgID) \<noteq> None \<and>
        (case swapchainImageAcquired vb vkSw of
           None \<Rightarrow> False | Some l \<Rightarrow> unat imgID < length l) \<and>
        (case swapchainImagePresented vb vkSw of
           None \<Rightarrow> False | Some l \<Rightarrow> unat imgID < length l))"

section \<open>Rolling out the executed subcommands\<close>

text \<open>
  \<^verbatim>\<open>updateCurrentCommand\<close>, as far as the fields kept in \<open>queueExecutionState\<close>
  go. For a full command index of length 4 it takes \<^verbatim>\<open>qei.currentCommand[0:3]\<close>,
  which panics when the stored index has a capacity below 3 (\<^verbatim>\<open>fci[0:3]\<close> is within
  the length of \<open>fci\<close>). For length 6 it slices the stored index only when that has
  length 6. Any other length is logged. Then the index is stored, with its capacity.
  The comparison of the two prefixes only decides whether a command buffer
  execution state is replaced by a new one, and is left out with those states.
\<close>

definition updateCurrentCommand :: "queueExecutionState \<Rightarrow> SubCmdIdx
    \<Rightarrow> panic + (queueExecutionState \<times> log_entry list)" where
  "updateCurrentCommand qei fci =
     (case (if length (indices fci) = 4
            then (if 3 \<le> capacity (currentCommand qei) then Inr []
                  else Inl SliceBoundsOutOfRange)
            else if length (indices fci) = 6 then Inr []
            else Inr [LogInvalidFullCommandIndex]) of
        Inl p \<Rightarrow> Inl p
      | Inr logs \<Rightarrow> Inr (qei\<lparr>currentCommand := fci\<rparr>, logs))"

text \<open>What \<^verbatim>\<open>updateCurrentCommand\<close> logs for an index, when it returns.\<close>

definition indexLengthLog :: "u64 list \<Rightarrow> log_entry list" where
  "indexLengthLog fci =
     (if length fci = 4 \<or> length fci = 6 then [] else [LogInvalidFullCommandIndex])"

text \<open>The loop over the wait semaphores of the behavior that begins a submit.\<close>

fun waitSemaphoreLoop :: "FootprintBuilder \<Rightarrow> Behavior \<Rightarrow> u64 list \<Rightarrow> FootprintBuilder \<times> Behavior" where
  "waitSemaphoreLoop vb bh [] = (vb, bh)"
| "waitSemaphoreLoop vb bh (vkSp # rest) =
     (case vb_read vb bh [VkHandle vkSp] of
        (vb1, bh1, ok1) \<Rightarrow>
          if ok1
          then (case vb_modify vb1 bh1 [labelVar (semaphoreSignals vb1 vkSp)] of
                  (vb2, bh2, ok2) \<Rightarrow> waitSemaphoreLoop vb2 bh2 rest)
          else waitSemaphoreLoop vb1 bh1 rest)"

text \<open>The loop over the signal semaphores of the behavior that ends a submit.\<close>

fun signalSemaphoreLoop :: "FootprintBuilder \<Rightarrow> Behavior \<Rightarrow> u64 list \<Rightarrow> FootprintBuilder \<times> Behavior" where
  "signalSemaphoreLoop vb bh [] = (vb, bh)"
| "signalSemaphoreLoop vb bh (vkSp # rest) =
     (case vb_read vb bh [VkHandle vkSp] of
        (vb1, bh1, ok1) \<Rightarrow>
          if ok1
          then (case vb_write vb1 bh1 [labelVar (semaphoreSignals vb1 vkSp)] of
                  (vb2, bh2, ok2) \<Rightarrow> signalSemaphoreLoop vb2 bh2 rest)
          else signalSemaphoreLoop vb1 bh1 rest)"

text \<open>
  The behavior that \<^verbatim>\<open>rollOutExecuted\<close> builds after the last pending command of a
  submit. \<^verbatim>\<open>vb.fences[submitinfo.signalFence].signal\<close> panics for a fence that is
  not null and has no shadow entry.
\<close>

definition terminalBehavior :: "FootprintBuilder \<Rightarrow> queueSubmitInfo \<Rightarrow> u64
    \<Rightarrow> panic + (FootprintBuilder \<times> Behavior)" where
  "terminalBehavior vb submitinfo submitID =
     (case vb_read vb (NewBehavior [submitID]) [Label (queued submitinfo)] of
        (vb1, bh1, ok1) \<Rightarrow>
      case vb_write vb1 bh1 [Label (done' submitinfo)] of
        (vb2, bh2, ok2) \<Rightarrow>
      case signalSemaphoreLoop vb2 bh2 (signalSemaphores submitinfo) of
        (vb3, bh3) \<Rightarrow>
      case vb_read vb3 bh3 [VkHandle (signalFence submitinfo)] of
        (vb4, bh4, ok4) \<Rightarrow>
          if ok4
          then (case fences vb4 (signalFence submitinfo) of
                  None \<Rightarrow> Inl NilPointerDereference
                | Some f \<Rightarrow>
                    (case vb_write vb4 bh4 [Label (signal f)] of
                       (vb5, bh5, ok5) \<Rightarrow> Inr (vb5, bh5)))
          else Inr (vb4, bh4))"

text \<open>
  One round of the loop of \<^verbatim>\<open>rollOutExecuted\<close>, for the executed full command
  index \<open>executedFCI\<close>. The result is a panic, or the new state, the new footprint,
  the error log of the round and whether the loop goes on (false after the
  \<^verbatim>\<open>return\<close> of the branch for a differing execution order). The submit info is
  a pointer in the source, so every assignment to it is an update of the map.
\<close>

definition rollOutStep :: "FootprintBuilder \<Rightarrow> Footprint \<Rightarrow> SubCmdIdx
    \<Rightarrow> panic + (FootprintBuilder \<times> Footprint \<times> log_entry list \<times> bool)" where
  "rollOutStep vb ft executedFCI =
     (case indices executedFCI of
        [] \<Rightarrow> Inl IndexOutOfRange
      | submitID # idx \<Rightarrow>
     (case submitInfos vb submitID of
        None \<Rightarrow> Inl NilPointerDereference
      | Some submitinfo0 \<Rightarrow>
     (case (if \<not> began submitinfo0
            then (case waitSemaphoreLoop vb (NewBehavior [submitID]) (waitSemaphores submitinfo0) of
                    (vbw, bh) \<Rightarrow>
                      (vbw\<lparr>submitInfos := (submitInfos vbw)(submitID \<mapsto> submitinfo0\<lparr>began := True\<rparr>)\<rparr>,
                       ft @ [AddedBehavior bh], submitinfo0\<lparr>began := True\<rparr>))
            else (vb, ft, submitinfo0)) of
        (vb1, ft1, submitinfo) \<Rightarrow>
     (case pendingCommands submitinfo of
        [] \<Rightarrow> Inl IndexOutOfRange
      | submittedCmd # rest \<Rightarrow>
          if indices executedFCI = subCmdIdx submittedCmd
          then
            (case executionStates vb1 (queue submitinfo) of
               None \<Rightarrow> Inl NilPointerDereference
             | Some execInfo \<Rightarrow>
                 (case updateCurrentCommand (execInfo\<lparr>currentSubmitInfo := Some submitID\<rparr>) executedFCI of
                    Inl p \<Rightarrow> Inl p
                  | Inr (execInfo', logs1) \<Rightarrow>
                 (let vb2 = vb1\<lparr>executionStates := (executionStates vb1)(queue submitinfo \<mapsto> execInfo')\<rparr>;
                      ft2 = ft1 @ [RanCommand submittedCmd];
                      submitinfo' = submitinfo\<lparr>pendingCommands := rest\<rparr>;
                      vb3 = vb2\<lparr>submitInfos := (submitInfos vb2)(submitID \<mapsto> submitinfo')\<rparr>
                  in if rest = []
                     then (case terminalBehavior vb3 submitinfo' submitID of
                             Inl p \<Rightarrow> Inl p
                           | Inr (vb4, bh) \<Rightarrow> Inr (vb4, ft2 @ [AddedBehavior bh], logs1, True))
                     else Inr (vb3, ft2, logs1, True))))
          else Inr (vb1, ft1,
                    [LogExecutionOrderDiffers (indices executedFCI) (subCmdIdx submittedCmd)],
                    False)))))"







section \<open>Properties\<close>

subsection \<open>Interval lists\<close>

lemma fold_Behavior_Read:
  "fold (\<lambda>x b. Behavior_Read b (f x)) xs bh = bh\<lparr>Reads := Reads bh @ map f xs\<rparr>"
  by (induction xs arbitrary: bh) (simp_all add: Behavior_Read_def)

lemma map_nth_upt_take_drop:
  "a + n \<le> length l \<Longrightarrow> map ((!) l) [a ..< a + n] = take n (drop a l)"
  by (rule nth_equalityI) auto

text \<open>
  In an ordered list, once a span overlaps the query the overlapping spans follow
  each other without a gap.
\<close>

lemma filter_run_after_hit:
  assumes "sorted_wrt (\<lambda>a b. End (f a) \<le> Start (f b)) (x # xs)"
    and "list_all (\<lambda>t. Start (f t) \<le> End (f t)) (x # xs)"
    and "overlaps (f x) q"
  shows "filter (\<lambda>t. overlaps (f t) q) xs = takeWhile (\<lambda>t. overlaps (f t) q) xs"
  using assms
proof (induction xs arbitrary: x)
  case Nil
  then show ?case by simp
next
  case (Cons y ys)
  show ?case
  proof (cases "overlaps (f y) q")
    case True
    have "filter (\<lambda>t. overlaps (f t) q) ys = takeWhile (\<lambda>t. overlaps (f t) q) ys"
      using Cons.prems True by (intro Cons.IH [of y]) simp_all
    with True show ?thesis by simp
  next
    case False
    have xq: "Start q < End (f x)" using Cons.prems(3) by (simp add: overlaps_def)
    have "End (f x) \<le> Start (f y)" "Start (f y) \<le> End (f y)"
      using Cons.prems by simp_all
    with xq have "Start q < End (f y)" by simp
    with False have far: "End q \<le> Start (f y)" by (simp add: overlaps_def)
    have "\<forall>z\<in>set ys. \<not> overlaps (f z) q"
    proof
      fix z assume "z \<in> set ys"
      then have "End (f y) \<le> Start (f z)" using Cons.prems(1) by simp
      with far \<open>Start (f y) \<le> End (f y)\<close> have "End q \<le> Start (f z)" by simp
      then show "\<not> overlaps (f z) q" by (auto simp: overlaps_def)
    qed
    then have "filter (\<lambda>t. overlaps (f t) q) ys = []" by (simp add: filter_empty_conv)
    with False show ?thesis by simp
  qed
qed

lemma filter_overlaps_run:
  assumes "sorted_wrt (\<lambda>a b. End (f a) \<le> Start (f b)) xs"
    and "list_all (\<lambda>t. Start (f t) \<le> End (f t)) xs"
  shows "filter (\<lambda>t. overlaps (f t) q) xs =
         takeWhile (\<lambda>t. overlaps (f t) q) (dropWhile (\<lambda>t. \<not> overlaps (f t) q) xs)"
  using assms
proof (induction xs)
  case Nil
  then show ?case by simp
next
  case (Cons x xs)
  show ?case
  proof (cases "overlaps (f x) q")
    case True
    then show ?thesis using filter_run_after_hit [OF Cons.prems True] by simp
  next
    case False
    then show ?thesis using Cons by simp
  qed
qed

lemma Intersect_map:
  "Intersect (map f xs) q =
     (length (takeWhile (\<lambda>t. \<not> overlaps (f t) q) xs),
      length (takeWhile (\<lambda>t. overlaps (f t) q) (dropWhile (\<lambda>t. \<not> overlaps (f t) q) xs)))"
  by (simp add: Intersect_def Let_def takeWhile_map drop_map comp_def dropWhile_eq_drop [symmetric])

lemma Intersect_in_range:
  assumes "Intersect (map f xs) q = (first, count)"
  shows "first + count \<le> length xs"
proof -
  let ?d = "dropWhile (\<lambda>t. \<not> overlaps (f t) q) xs"
  have "count \<le> length ?d"
    using assms by (auto simp: Intersect_map intro: length_takeWhile_le)
  moreover have "first + length ?d = length xs"
    using assms length_takeWhile_le [of "\<lambda>t. \<not> overlaps (f t) q" xs]
    by (auto simp: Intersect_map dropWhile_eq_drop)
  ultimately show ?thesis by simp
qed

lemma Intersect_take_drop:
  assumes "Intersect (map f xs) q = (first, count)"
  shows "map ((!) xs) [first ..< first + count] =
         takeWhile (\<lambda>t. overlaps (f t) q) (dropWhile (\<lambda>t. \<not> overlaps (f t) q) xs)"
proof -
  let ?d = "dropWhile (\<lambda>t. \<not> overlaps (f t) q) xs"
  have f: "first = length (takeWhile (\<lambda>t. \<not> overlaps (f t) q) xs)"
    and c: "count = length (takeWhile (\<lambda>t. overlaps (f t) q) ?d)"
    using assms by (simp_all add: Intersect_map)
  have "map ((!) xs) [first ..< first + count] = take count (drop first xs)"
    using Intersect_in_range [OF assms] by (rule map_nth_upt_take_drop)
  also have "drop first xs = ?d" by (simp add: f dropWhile_eq_drop [symmetric])
  also have "take count ?d = takeWhile (\<lambda>t. overlaps (f t) q) ?d"
    by (simp add: c takeWhile_eq_take [symmetric])
  finally show ?thesis .
qed

lemma Intersect_selects_overlapping:
  assumes "ordered_spans (map f xs)" and "Intersect (map f xs) q = (first, count)"
  shows "map ((!) xs) [first ..< first + count] = filter (\<lambda>t. overlaps (f t) q) xs"
proof -
  have s: "sorted_wrt (\<lambda>a b. End (f a) \<le> Start (f b)) xs"
    and w: "list_all (\<lambda>t. Start (f t) \<le> End (f t)) xs"
    using assms(1) by (simp_all add: ordered_spans_def sorted_wrt_map list_all_iff)
  show ?thesis
    using Intersect_take_drop [OF assms(2)] filter_overlaps_run [OF s w, of q] by simp
qed

subsection \<open>Reads and writes of memory spans\<close>

lemma read1_MemorySpan_ordered:
  assumes "memory c \<noteq> 0"
    and "ordered_spans (map memorySpan_span (recordsOf st (memory c)))"
  shows "read1 st bh (MemorySpan c) =
     (st, bh\<lparr>Reads := Reads bh @ map MemorySpan
        (filter (\<lambda>r. overlaps (memorySpan_span r) (memorySpan_span c)) (recordsOf st (memory c)))\<rparr>,
      True)"
proof -
  obtain first count where ic:
    "Intersect (map memorySpan_span (recordsOf st (memory c))) (memorySpan_span c) = (first, count)"
    by (cases "Intersect (map memorySpan_span (recordsOf st (memory c))) (memorySpan_span c)")
  have sel: "map ((!) (recordsOf st (memory c))) [first ..< first + count] =
      filter (\<lambda>r. overlaps (memorySpan_span r) (memorySpan_span c)) (recordsOf st (memory c))"
    by (rule Intersect_selects_overlapping [OF assms(2) ic])
  have "fold (\<lambda>i b. Behavior_Read b (MemorySpan (recordsOf st (memory c) ! i))) [first ..< first + count] bh =
      bh\<lparr>Reads := Reads bh @ map (\<lambda>i. MemorySpan (recordsOf st (memory c) ! i)) [first ..< first + count]\<rparr>"
    by (rule fold_Behavior_Read)
  also have "map (\<lambda>i. MemorySpan (recordsOf st (memory c) ! i)) [first ..< first + count] =
      map MemorySpan (map ((!) (recordsOf st (memory c))) [first ..< first + count])"
    by simp
  finally show ?thesis using assms(1) ic sel by (simp add: Let_def)
qed

lemma word_between_diff_le:
  fixes A B C :: u64
  assumes "A \<le> B" "B \<le> C"
  shows "B - A \<le> C - A"
  using assms by (simp add: word_le_nat_alt unat_sub)

lemma word_diff_not_whole:
  fixes A B C :: u64
  assumes "A \<le> B" "B < C"
  shows "B - A \<noteq> vkWholeSize"
proof
  assume "B - A = vkWholeSize"
  then have "unat (B - A) = unat vkWholeSize" by simp
  moreover have "unat (B - A) = unat B - unat A" using assms(1) by (simp add: unat_sub)
  moreover have "unat B < unat C" using assms(2) by (simp add: word_less_nat_alt)
  moreover have "unat C < 2 ^ 64" using unsigned_less [of C, where ?'a = nat] by simp
  ultimately show False by (simp add: vkWholeSize_def)
qed

lemma shrink_head:
  fixes A B C :: u64
  assumes "A < B" "B < C"
  shows "memorySpan_shrink (memSpan m A C) 0 (B - A) = Inr (memSpan m A B)"
proof -
  have "B - A \<noteq> vkWholeSize" using assms by (intro word_diff_not_whole [of A B C]) simp_all
  moreover have "\<not> C - A < B - A"
    using word_between_diff_le [of A B C] assms by (simp add: not_less)
  ultimately show ?thesis
    by (simp add: memorySpan_shrink_def memorySpan_size_def memSpan_def Let_def)
qed

lemma first_write_recorded:
  assumes "m \<noteq> 0" and "recordsOf st m = []"
  shows "write' st b1 [MemorySpan (memSpan m A C)] =
           (st\<lparr>records := (records st)(m \<mapsto> [memSpan m A C])\<rparr>,
            b1\<lparr>Writes := Writes b1 @ [MemorySpan (memSpan m A C)]\<rparr>, True)"
  using assms
  by (simp add: write'_def addBinding_def memorySpan_duplicate_def Behavior_Write_def Let_def
      memSpan_def)

lemma second_write_recorded:
  fixes A B C D :: u64
  assumes m: "m \<noteq> 0" and AB: "A < B" and BC: "B < C" and CD: "C < D"
  shows "write' (st\<lparr>records := (records st)(m \<mapsto> [memSpan m A C])\<rparr>) b2
             [MemorySpan (memSpan m B D)] =
           (st\<lparr>records := (records st)(m \<mapsto> [memSpan m A B, memSpan m B D])\<rparr>,
            b2\<lparr>Writes := Writes b2 @ [MemorySpan (memSpan m B D)]\<rparr>, True)"
proof -
  have AD: "A < D" using AB BC CD by auto
  have nDC: "\<not> D < C" using CD by auto
  have "memorySpan_shrink (memSpan m A C) 0 (B - A) = Inr (memSpan m A B)"
    by (rule shrink_head [OF AB BC])
  then have cut: "cutOut (memSpan m A C) \<lparr>Start = B, End = D\<rparr> = Inr [memSpan m A B]"
    using AB BC nDC AD
    by (simp add: cutOut_def overlaps_def memorySpan_span_def memorySpan_duplicate_def memSpan_def)
  have add: "addBinding [memSpan m A C] (memSpan m B D) = Inr [memSpan m A B, memSpan m B D]"
    using AB cut by (simp add: addBinding_def memorySpan_span_def memSpan_def)
  have mem: "memory (memSpan m B D) = m" by (simp add: memSpan_def)
  show ?thesis
    using m mem add
    by (simp add: write'_def recordsOf_def memorySpan_duplicate_def Behavior_Write_def Let_def)
qed

lemma read_after_two_writes:
  fixes A B C D :: u64
  assumes m: "m \<noteq> 0" and AB: "A < B" and BC: "B < C" and CD: "C < D"
  shows "read (st\<lparr>records := (records st)(m \<mapsto> [memSpan m A B, memSpan m B D])\<rparr>) b3
             [MemorySpan (memSpan m A D)] =
           (st\<lparr>records := (records st)(m \<mapsto> [memSpan m A B, memSpan m B D])\<rparr>,
            b3\<lparr>Reads := Reads b3 @ [MemorySpan (memSpan m A B), MemorySpan (memSpan m B D)]\<rparr>,
            True)"
proof -
  have AD: "A < D" and BD: "B < D" using AB BC CD by auto
  show ?thesis
    using m AB AD BD
    by (simp add: read_def recordsOf_def Intersect_def overlaps_def memorySpan_span_def
        Behavior_Read_def Let_def memSpan_def)
qed

text \<open>
  Claim C1. Reading a memory span of a device memory other than the null handle
  makes the behavior read exactly the recorded spans of that memory which overlap
  the span, in their order, and leaves the recorded spans as they are. Writing it
  duplicates the span, merges the duplicate into the recorded spans and enters the
  duplicate in the behavior's writes. So after a write of the interval from A to C
  and a write of the interval from B to D, with A < B < C < D, a read of the interval
  from A to D reads the two recorded spans that cover it.
\<close>

theorem C1_memory_span_read_and_write:
  fixes A B C D :: u64
  shows
  "(memory c \<noteq> 0 \<and> ordered_spans (map memorySpan_span (recordsOf st (memory c))) \<longrightarrow>
      read st bh [MemorySpan c] =
        (st, bh\<lparr>Reads := Reads bh @ map MemorySpan
           (filter (\<lambda>r. overlaps (memorySpan_span r) (memorySpan_span c))
              (recordsOf st (memory c)))\<rparr>, True)) \<and>
   (memory c \<noteq> 0 \<and>
      addBinding (recordsOf st (memory c)) (memorySpan_duplicate c) = Inr newList \<longrightarrow>
      write' st bh [MemorySpan c] =
        (st\<lparr>records := (records st)(memory c \<mapsto> newList)\<rparr>,
         bh\<lparr>Writes := Writes bh @ [MemorySpan (memorySpan_duplicate c)]\<rparr>, True) \<and>
      memorySpan_duplicate c \<in> set newList) \<and>
   (m \<noteq> 0 \<and> A < B \<and> B < C \<and> C < D \<and> recordsOf st0 m = [] \<longrightarrow>
      (\<exists>st1 st2 b1' b2' b3'.
         write' st0 b1 [MemorySpan (memSpan m A C)] = (st1, b1', True) \<and>
         write' st1 b2 [MemorySpan (memSpan m B D)] = (st2, b2', True) \<and>
         read st2 b3 [MemorySpan (memSpan m A D)] = (st2, b3', True) \<and>
         recordsOf st2 m = [memSpan m A B, memSpan m B D] \<and>
         Reads b3' = Reads b3 @ [MemorySpan (memSpan m A B), MemorySpan (memSpan m B D)]))"
proof (intro conjI impI)
  assume "memory c \<noteq> 0 \<and> ordered_spans (map memorySpan_span (recordsOf st (memory c)))"
  then show "read st bh [MemorySpan c] =
        (st, bh\<lparr>Reads := Reads bh @ map MemorySpan
           (filter (\<lambda>r. overlaps (memorySpan_span r) (memorySpan_span c))
              (recordsOf st (memory c)))\<rparr>, True)"
    using read1_MemorySpan_ordered [of c st bh] by (simp add: read_def)
next
  assume a: "memory c \<noteq> 0 \<and>
      addBinding (recordsOf st (memory c)) (memorySpan_duplicate c) = Inr newList"
  then show "write' st bh [MemorySpan c] =
        (st\<lparr>records := (records st)(memory c \<mapsto> newList)\<rparr>,
         bh\<lparr>Writes := Writes bh @ [MemorySpan (memorySpan_duplicate c)]\<rparr>, True)"
    by (simp add: write'_def Let_def memorySpan_duplicate_def Behavior_Write_def)
  from a show "memorySpan_duplicate c \<in> set newList"
    by (auto simp: addBinding_def split: sum.splits)
next
  assume a: "m \<noteq> 0 \<and> A < B \<and> B < C \<and> C < D \<and> recordsOf st0 m = []"
  let ?st1 = "st0\<lparr>records := (records st0)(m \<mapsto> [memSpan m A C])\<rparr>"
  let ?st2 = "st0\<lparr>records := (records st0)(m \<mapsto> [memSpan m A B, memSpan m B D])\<rparr>"
  have w1: "write' st0 b1 [MemorySpan (memSpan m A C)] =
      (?st1, b1\<lparr>Writes := Writes b1 @ [MemorySpan (memSpan m A C)]\<rparr>, True)"
    using a first_write_recorded [of m st0 b1 A C] by simp
  have w2: "write' ?st1 b2 [MemorySpan (memSpan m B D)] =
      (?st2, b2\<lparr>Writes := Writes b2 @ [MemorySpan (memSpan m B D)]\<rparr>, True)"
    using a second_write_recorded [of m A B C D st0 b2] by simp
  have r3: "read ?st2 b3 [MemorySpan (memSpan m A D)] =
      (?st2, b3\<lparr>Reads := Reads b3 @ [MemorySpan (memSpan m A B), MemorySpan (memSpan m B D)]\<rparr>,
       True)"
    using a read_after_two_writes [of m A B C D st0 b3] by simp
  have rec: "recordsOf ?st2 m = [memSpan m A B, memSpan m B D]"
    by (simp add: recordsOf_def)
  show "\<exists>st1 st2 b1' b2' b3'.
         write' st0 b1 [MemorySpan (memSpan m A C)] = (st1, b1', True) \<and>
         write' st1 b2 [MemorySpan (memSpan m B D)] = (st2, b2', True) \<and>
         read st2 b3 [MemorySpan (memSpan m A D)] = (st2, b3', True) \<and>
         recordsOf st2 m = [memSpan m A B, memSpan m B D] \<and>
         Reads b3' = Reads b3 @ [MemorySpan (memSpan m A B), MemorySpan (memSpan m B D)]"
    apply (rule exI [of _ ?st1], rule exI [of _ ?st2])
    using w1 w2 r3 rec by simp
qed

theorem C1_memory_span_read_and_write_witness:
  "read (emptyEmitter\<lparr>records := [1 \<mapsto> [memSpan 1 0 4, memSpan 1 4 12]]\<rparr>) (NewBehavior [7])
      [MemorySpan (memSpan 1 2 6)] =
     (emptyEmitter\<lparr>records := [1 \<mapsto> [memSpan 1 0 4, memSpan 1 4 12]]\<rparr>,
      (NewBehavior [7])\<lparr>Reads := [MemorySpan (memSpan 1 0 4), MemorySpan (memSpan 1 4 12)]\<rparr>, True) \<and>
   write' (emptyEmitter\<lparr>records := [1 \<mapsto> [memSpan 1 0 4, memSpan 1 4 12]]\<rparr>) (NewBehavior [7])
      [MemorySpan (memSpan 1 2 6)] =
     (emptyEmitter\<lparr>records := [1 \<mapsto> [memSpan 1 0 2, memSpan 1 2 6, memSpan 1 6 12]]\<rparr>,
      (NewBehavior [7])\<lparr>Writes := [MemorySpan (memSpan 1 2 6)]\<rparr>, True) \<and>
   (\<exists>st1 st2 b1' b2' b3'.
      write' emptyEmitter (NewBehavior [1]) [MemorySpan (memSpan 1 0 8)] = (st1, b1', True) \<and>
      write' st1 (NewBehavior [2]) [MemorySpan (memSpan 1 4 12)] = (st2, b2', True) \<and>
      read st2 (NewBehavior [3]) [MemorySpan (memSpan 1 0 12)] = (st2, b3', True) \<and>
      recordsOf st2 1 = [memSpan 1 0 4, memSpan 1 4 12] \<and>
      Reads b3' = [MemorySpan (memSpan 1 0 4), MemorySpan (memSpan 1 4 12)])"
proof -
  let ?st = "emptyEmitter\<lparr>records := [1 \<mapsto> [memSpan 1 0 4, memSpan 1 4 12]]\<rparr>"
  have mem: "memory (memSpan 1 2 6) \<noteq> 0" by (simp add: memSpan_def)
  have rec: "recordsOf ?st (memory (memSpan 1 2 6)) = [memSpan 1 0 4, memSpan 1 4 12]"
    by (simp add: recordsOf_def memSpan_def)
  have ord: "ordered_spans (map memorySpan_span (recordsOf ?st (memory (memSpan 1 2 6))))"
    by (simp only: rec) (simp add: ordered_spans_def memorySpan_span_def memSpan_def)
  have add: "addBinding (recordsOf ?st (memory (memSpan 1 2 6))) (memorySpan_duplicate (memSpan 1 2 6)) =
      Inr [memSpan 1 0 2, memSpan 1 2 6, memSpan 1 6 12]"
    by (simp only: rec)
      (simp add: addBinding_def cutOut_def overlaps_def memorySpan_span_def
        memorySpan_duplicate_def memorySpan_shrink_def memorySpan_size_def vkWholeSize_def
        memSpan_def Let_def)
  have emp: "recordsOf emptyEmitter 1 = []" by (simp add: recordsOf_def emptyEmitter_def)
  note inst = C1_memory_span_read_and_write [of "memSpan 1 2 6" "?st" "NewBehavior [7]"
      "[memSpan 1 0 2, memSpan 1 2 6, memSpan 1 6 12]" 1 0 4 8 12 emptyEmitter
      "NewBehavior [1]" "NewBehavior [2]" "NewBehavior [3]"]
  have r: "read ?st (NewBehavior [7]) [MemorySpan (memSpan 1 2 6)] =
     (?st, (NewBehavior [7])\<lparr>Reads := [MemorySpan (memSpan 1 0 4), MemorySpan (memSpan 1 4 12)]\<rparr>, True)"
    using inst mem ord unfolding rec
    by (simp add: overlaps_def memorySpan_span_def memSpan_def NewBehavior_def)
  have w: "write' ?st (NewBehavior [7]) [MemorySpan (memSpan 1 2 6)] =
     (emptyEmitter\<lparr>records := [1 \<mapsto> [memSpan 1 0 2, memSpan 1 2 6, memSpan 1 6 12]]\<rparr>,
      (NewBehavior [7])\<lparr>Writes := [MemorySpan (memSpan 1 2 6)]\<rparr>, True)"
    using inst mem add unfolding rec
    by (simp add: memorySpan_duplicate_def NewBehavior_def memSpan_def)
  have s: "\<exists>st1 st2 b1' b2' b3'.
      write' emptyEmitter (NewBehavior [1]) [MemorySpan (memSpan 1 0 8)] = (st1, b1', True) \<and>
      write' st1 (NewBehavior [2]) [MemorySpan (memSpan 1 4 12)] = (st2, b2', True) \<and>
      read st2 (NewBehavior [3]) [MemorySpan (memSpan 1 0 12)] = (st2, b3', True) \<and>
      recordsOf st2 1 = [memSpan 1 0 4, memSpan 1 4 12] \<and>
      Reads b3' = [MemorySpan (memSpan 1 0 4), MemorySpan (memSpan 1 4 12)]"
    using inst emp by (simp add: NewBehavior_def)
  from r w s show ?thesis by blast
qed

text \<open>
  Claim C10. A memory span whose device memory is the null handle is passed over by
  \<^verbatim>\<open>read\<close> and by \<^verbatim>\<open>write\<close>: the state (with the recorded spans), the
  behavior and \<^verbatim>\<open>allSucceeded\<close> stay as they are, so that reading or writing
  this variable alone returns true. A null Vulkan handle is passed over as well, but
  sets \<^verbatim>\<open>allSucceeded\<close> to false.
\<close>

theorem C10_null_device_memory_is_not_a_failure:
  "memory c = 0 \<Longrightarrow>
     read_loop st bh acc (MemorySpan c # cs) = read_loop st bh acc cs \<and>
     write_loop st bh acc (MemorySpan c # cs) = write_loop st bh acc cs \<and>
     read st bh [MemorySpan c] = (st, bh, True) \<and>
     write' st bh [MemorySpan c] = (st, bh, True) \<and>
     read_loop st bh acc (VkHandle 0 # cs) = read_loop st bh False cs \<and>
     write_loop st bh acc (VkHandle 0 # cs) = write_loop st bh False cs \<and>
     read st bh [VkHandle 0] = (st, bh, False) \<and>
     write' st bh [VkHandle 0] = (st, bh, False)"
  by (simp add: read_def write'_def)

theorem C10_null_device_memory_is_not_a_failure_witness:
  "memory (memSpan 0 16 32) = 0 \<and>
   read (emptyEmitter\<lparr>records := [0 \<mapsto> [], 1 \<mapsto> [memSpan 1 0 64]]\<rparr>) (NewBehavior [5])
        [MemorySpan (memSpan 0 16 32)] =
     (emptyEmitter\<lparr>records := [0 \<mapsto> [], 1 \<mapsto> [memSpan 1 0 64]]\<rparr>, NewBehavior [5], True) \<and>
   write' (emptyEmitter\<lparr>records := [0 \<mapsto> [], 1 \<mapsto> [memSpan 1 0 64]]\<rparr>) (NewBehavior [5])
        [MemorySpan (memSpan 0 16 32)] =
     (emptyEmitter\<lparr>records := [0 \<mapsto> [], 1 \<mapsto> [memSpan 1 0 64]]\<rparr>, NewBehavior [5], True) \<and>
   read (emptyEmitter\<lparr>records := [0 \<mapsto> [], 1 \<mapsto> [memSpan 1 0 64]]\<rparr>) (NewBehavior [5])
        [VkHandle 0] =
     (emptyEmitter\<lparr>records := [0 \<mapsto> [], 1 \<mapsto> [memSpan 1 0 64]]\<rparr>, NewBehavior [5], False)"
proof -
  have m: "memory (memSpan 0 16 32) = 0" by (simp add: memSpan_def)
  show ?thesis
    using C10_null_device_memory_is_not_a_failure [OF m,
        of "emptyEmitter\<lparr>records := [0 \<mapsto> [], 1 \<mapsto> [memSpan 1 0 64]]\<rparr>" "NewBehavior [5]" True "[]"] m
    by simp
qed

subsection \<open>Sub-binding lists\<close>

lemma read_ResBinding: "read st h [ResBinding b] = (st, Behavior_Read h (ResBinding b), True)"
  by (simp add: read_def)

lemma write_ResBinding: "write' st h [ResBinding b] = (st, Behavior_Write h (ResBinding b), True)"
  by (simp add: write'_def)

lemma subBindingStep_eq:
  "subBindingStep offset size1 b (st, bh, subs, logs) =
     (st,
      map_option (\<lambda>h. case subBindingOf offset size1 b of
                        Inl err \<Rightarrow> Behavior_Read h (ResBinding b)
                      | Inr newB \<Rightarrow> Behavior_Write (Behavior_Read h (ResBinding b)) (ResBinding newB)) bh,
      subs @ keptSubBindings offset size1 [b],
      logs @ loggedShrinkErrors offset size1 [b])"
  by (cases bh; cases "subBindingOf offset size1 b")
     (simp_all add: subBindingStep_def newSubBinding_def read_ResBinding write_ResBinding
       subBindingOf_def keptSubBindings_def loggedShrinkErrors_def Let_def)

lemma keptSubBindings_Cons:
  "keptSubBindings offset size1 (b # bs) =
     keptSubBindings offset size1 [b] @ keptSubBindings offset size1 bs"
  by (simp add: keptSubBindings_def)

lemma loggedShrinkErrors_Cons:
  "loggedShrinkErrors offset size1 (b # bs) =
     loggedShrinkErrors offset size1 [b] @ loggedShrinkErrors offset size1 bs"
  by (simp add: loggedShrinkErrors_def)

lemma subBindingLoop_eq:
  "fold (subBindingStep offset size1) bs (st, bh, subs, logs) =
     (st,
      map_option (\<lambda>h. h\<lparr>Reads := Reads h @ map ResBinding bs,
                         Writes := Writes h @ map ResBinding (keptSubBindings offset size1 bs)\<rparr>) bh,
      subs @ keptSubBindings offset size1 bs,
      logs @ loggedShrinkErrors offset size1 bs)"
proof (induction bs arbitrary: bh subs logs)
  case Nil
  show ?case by (cases bh) (simp_all add: keptSubBindings_def loggedShrinkErrors_def)
next
  case (Cons b bs)
  show ?case
    unfolding fold_Cons comp_def subBindingStep_eq Cons.IH
      keptSubBindings_Cons [of _ _ b bs] loggedShrinkErrors_Cons [of _ _ b bs]
    by (cases bh; cases "subBindingOf offset size1 b")
       (simp_all add: keptSubBindings_def loggedShrinkErrors_def Behavior_Read_def Behavior_Write_def)
qed

lemma clip_arith:
  fixes S a e n :: u64
  assumes "S \<le> a" "a \<le> e" "e \<le> S + n" "S \<le> S + n"
  shows "(if e - a = vkWholeSize then n - (a - S) else e - a) = e - a"
    and "\<not> (a - S) + (e - a) < a - S"
    and "\<not> n < (a - S) + (e - a)"
proof -
  have uS: "unat S \<le> unat a" and ua: "unat a \<le> unat e" and ue: "unat e \<le> unat (S + n)"
    using assms by (simp_all add: word_le_nat_alt)
  have un: "unat (S + n) = unat S + unat n"
    using assms(4) by (simp add: unat_plus_simple)
  have sum: "(a - S) + (e - a) = e - S" by simp
  have Se: "S \<le> e" using assms by simp
  have d1: "unat (a - S) = unat a - unat S" using assms(1) by (simp add: unat_sub)
  have d2: "unat (e - S) = unat e - unat S" using Se by (simp add: unat_sub)
  have d3: "unat (e - a) = unat e - unat a" using assms(2) by (simp add: unat_sub)
  show "\<not> (a - S) + (e - a) < a - S"
    unfolding sum using d1 d2 ua by (simp add: word_less_nat_alt)
  show "\<not> n < (a - S) + (e - a)"
    unfolding sum using d2 ue un by (simp add: word_less_nat_alt)
  show "(if e - a = vkWholeSize then n - (a - S) else e - a) = e - a"
  proof (cases "e - a = vkWholeSize")
    case False
    then show ?thesis by simp
  next
    case True
    then have "unat e - unat a = 2 ^ 64 - 1" using d3 by (simp add: vkWholeSize_def)
    moreover have "unat e < 2 ^ 64" using unsigned_less [of e, where ?'a = nat] by simp
    ultimately have a0: "unat a = 0" and emax: "unat e = 2 ^ 64 - 1" by simp_all
    have "unat S = 0" using uS a0 by simp
    then have S0: "S = 0" and A0: "a = 0" using a0 by (simp_all add: unat_eq_0)
    have "unat n < 2 ^ 64" using unsigned_less [of n, where ?'a = nat] by simp
    moreover have "2 ^ 64 - 1 \<le> unat n" using ue un emax S0 by simp
    ultimately have "unat n = unat e" using emax by simp
    then have "n = e" by (simp add: word_unat_eq_iff)
    then show ?thesis using True S0 A0 by simp
  qed
qed

lemma resBinding_duplicate_id: "resBinding_duplicate b = b"
  by (cases "backingData b") (simp_all add: resBinding_duplicate_def memorySpan_duplicate_def)

lemma clipStart_max: "clipStart offset size1 b = max offset (Start (resBinding_span b))"
  by (auto simp: clipStart_def max_def)

lemma clipEnd_min: "clipEnd offset size1 b = min (offset + size1) (End (resBinding_span b))"
  by (auto simp: clipEnd_def min_def)

lemma clip_bounds:
  assumes wf: "Start (resBinding_span b) \<le> End (resBinding_span b)"
    and q: "offset \<le> offset + size1"
    and ov: "overlaps (resBinding_span b) \<lparr>Start = offset, End = offset + size1\<rparr>"
  shows "resourceOffset b \<le> clipStart offset size1 b"
    and "clipStart offset size1 b \<le> clipEnd offset size1 b"
    and "clipEnd offset size1 b \<le> resourceOffset b + bindSize b"
    and "resourceOffset b \<le> resourceOffset b + bindSize b"
  using assms
  by (auto simp: clipStart_def clipEnd_def overlaps_def resBinding_span_def resBinding_size_def)

lemma resBinding_shrink_in_bounds:
  assumes "(if sz = vkWholeSize then bindSize b - off else sz) = sz"
    and "\<not> off + sz < off" and "\<not> bindSize b < off + sz"
  shows "resBinding_shrink b off sz =
     (case backingData b of
        BackingSpan s \<Rightarrow>
          Inr \<lparr>resourceOffset = resourceOffset b + off, bindSize = sz,
               backingData = BackingSpan
                 (s\<lparr>sp := \<lparr>Start = Start (sp s) + off, End = Start (sp s) + off + sz\<rparr>\<rparr>)\<rparr>
      | BackingLabel n \<Rightarrow>
          if off \<noteq> 0 \<or> sz \<noteq> bindSize b then Inl CannotShrinkNonSpan else Inr b)"
proof -
  have "resBinding_shrink b off sz =
     (case backingData b of
           BackingSpan s \<Rightarrow>
             Inr (b\<lparr>bindSize := sz,
                     resourceOffset := resourceOffset b + off,
                     backingData := BackingSpan
                       (s\<lparr>sp := \<lparr>Start = Start (sp s) + off,
                                  End = Start (sp s) + off + sz\<rparr>\<rparr>)\<rparr>)
         | BackingLabel n \<Rightarrow>
             if off \<noteq> 0 \<or> sz \<noteq> resBinding_size b
             then Inl CannotShrinkNonSpan
             else Inr b)"
    unfolding resBinding_shrink_def Let_def resBinding_size_def assms(1)
    using assms(2,3) by simp
  then show ?thesis
    by (cases b) (simp add: resBinding_size_def split: backing.splits)
qed

lemma subBindingOf_clipBinding:
  assumes wf: "Start (resBinding_span b) \<le> End (resBinding_span b)"
    and q: "offset \<le> offset + size1"
    and ov: "overlaps (resBinding_span b) \<lparr>Start = offset, End = offset + size1\<rparr>"
  shows "subBindingOf offset size1 b =
     (case clipBinding \<lparr>Start = offset, End = offset + size1\<rparr> b of
        Some newB \<Rightarrow> Inr newB | None \<Rightarrow> Inl CannotShrinkNonSpan)"
proof -
  let ?S = "resourceOffset b" and ?n = "bindSize b"
  let ?a = "clipStart offset size1 b" and ?e = "clipEnd offset size1 b"
  note cb = clip_bounds [OF assms]
  note ar = clip_arith [OF cb]
  have S: "Start (resBinding_span b) = ?S" and E: "End (resBinding_span b) = ?S + ?n"
    by (simp_all add: resBinding_span_def resBinding_size_def)
  have mx: "max offset ?S = ?a" and mn: "min (offset + size1) (?S + ?n) = ?e"
    by (simp_all add: clipStart_max clipEnd_min S E)
  have whole: "(?a - ?S \<noteq> 0 \<or> ?e - ?a \<noteq> ?n) \<longleftrightarrow> \<not> (?a = ?S \<and> ?e = ?S + ?n)"
    by (auto simp: algebra_simps)
  have "subBindingOf offset size1 b = resBinding_shrink b (?a - ?S) (?e - ?a)"
    by (simp add: subBindingOf_def resBinding_duplicate_id S)
  also have "\<dots> =
     (case backingData b of
        BackingSpan s \<Rightarrow>
          Inr \<lparr>resourceOffset = ?S + (?a - ?S), bindSize = ?e - ?a,
               backingData = BackingSpan
                 (s\<lparr>sp := \<lparr>Start = Start (sp s) + (?a - ?S),
                            End = Start (sp s) + (?a - ?S) + (?e - ?a)\<rparr>\<rparr>)\<rparr>
      | BackingLabel n \<Rightarrow>
          if ?a - ?S \<noteq> 0 \<or> ?e - ?a \<noteq> ?n then Inl CannotShrinkNonSpan else Inr b)"
    by (rule resBinding_shrink_in_bounds [OF ar])
  also have "\<dots> = (case clipBinding \<lparr>Start = offset, End = offset + size1\<rparr> b of
        Some newB \<Rightarrow> Inr newB | None \<Rightarrow> Inl CannotShrinkNonSpan)"
    unfolding whole
    by (simp add: clipBinding_def S E mx mn Let_def split: backing.splits)
  finally show ?thesis .
qed

lemma keptSubBindings_clip:
  assumes "\<forall>b\<in>set bs. Start (resBinding_span b) \<le> End (resBinding_span b) \<and>
              overlaps (resBinding_span b) \<lparr>Start = offset, End = offset + size1\<rparr>"
    and "offset \<le> offset + size1"
  shows "keptSubBindings offset size1 bs =
         List.map_filter (clipBinding \<lparr>Start = offset, End = offset + size1\<rparr>) bs"
  using assms(1)
proof (induction bs)
  case Nil
  show ?case by (simp add: keptSubBindings_def List.map_filter_simps)
next
  case (Cons b bs)
  have "subBindingOf offset size1 b =
     (case clipBinding \<lparr>Start = offset, End = offset + size1\<rparr> b of
        Some newB \<Rightarrow> Inr newB | None \<Rightarrow> Inl CannotShrinkNonSpan)"
    using Cons.prems assms(2) by (intro subBindingOf_clipBinding) simp_all
  moreover have "keptSubBindings offset size1 bs =
         List.map_filter (clipBinding \<lparr>Start = offset, End = offset + size1\<rparr>) bs"
    using Cons by simp
  ultimately show ?case
    by (simp add: keptSubBindings_def List.map_filter_simps split: option.splits)
qed

lemma le_vkWholeSize: "(x :: u64) \<le> vkWholeSize"
proof -
  have "unat x < 2 ^ 64" using unsigned_less [of x, where ?'a = nat] by simp
  then show ?thesis by (simp add: word_le_nat_alt vkWholeSize_def)
qed

lemma requestedRange_wf: "offset \<le> offset + requestedSize offset size0"
  by (simp add: requestedSize_def le_vkWholeSize not_less)

lemma getSubBindingList_eq:
  "getSubBindingList st bh l offset size0 =
     (let bs = takeWhile (\<lambda>b. overlaps (resBinding_span b) (requestedRange offset size0))
                 (dropWhile (\<lambda>b. \<not> overlaps (resBinding_span b) (requestedRange offset size0)) l)
      in (st,
          map_option (\<lambda>h. h\<lparr>Reads := Reads h @ map ResBinding bs,
             Writes := Writes h @ map ResBinding
               (keptSubBindings offset (requestedSize offset size0) bs)\<rparr>) bh,
          keptSubBindings offset (requestedSize offset size0) bs,
          loggedShrinkErrors offset (requestedSize offset size0) bs))"
proof -
  let ?q = "requestedRange offset size0"
  let ?sz = "requestedSize offset size0"
  obtain first count where ic: "Intersect (map resBinding_span l) ?q = (first, count)"
    by (cases "Intersect (map resBinding_span l) ?q")
  let ?bs = "takeWhile (\<lambda>b. overlaps (resBinding_span b) ?q)
                 (dropWhile (\<lambda>b. \<not> overlaps (resBinding_span b) ?q) l)"
  have bs: "map ((!) l) [first ..< first + count] = ?bs"
    by (rule Intersect_take_drop [OF ic])
  have len: "count = length ?bs" using ic by (simp add: Intersect_map)
  have loop: "fold (\<lambda>i. subBindingStep offset ?sz (l ! i)) [first ..< first + count] (st, bh, [], []) =
      fold (subBindingStep offset ?sz) ?bs (st, bh, [], [])"
  proof -
    have "fold (\<lambda>i. subBindingStep offset ?sz (l ! i)) [first ..< first + count] (st, bh, [], []) =
        fold (subBindingStep offset ?sz) (map ((!) l) [first ..< first + count]) (st, bh, [], [])"
      by (simp add: fold_map comp_def)
    then show ?thesis by (simp only: bs)
  qed
  have ic': "Intersect (map resBinding_span l)
       \<lparr>Start = offset, End = offset + (if offset + size0 < offset then vkWholeSize - offset else size0)\<rparr>
       = (first, count)"
    using ic by (simp add: requestedRange_def requestedSize_def)
  show ?thesis
  proof (cases "count = 0")
    case True
    then have "?bs = []" using len by simp
    then show ?thesis
      using True ic'
      by (cases bh) (simp_all add: getSubBindingList_def Let_def keptSubBindings_def loggedShrinkErrors_def)
  next
    case False
    then show ?thesis
      using ic' loop
      by (simp add: getSubBindingList_def Let_def subBindingLoop_eq requestedSize_def)
  qed
qed

lemma getSubBindingList_ordered:
  assumes ord: "ordered_spans (map resBinding_span l)"
  shows "getSubBindingList st bh l offset size0 =
     (let q = requestedRange offset size0;
          hits = filter (\<lambda>b. overlaps (resBinding_span b) q) l
      in (st,
          map_option (\<lambda>h. h\<lparr>Reads := Reads h @ map ResBinding hits,
             Writes := Writes h @ map ResBinding (spec_subBindingList l q)\<rparr>) bh,
          spec_subBindingList l q,
          loggedShrinkErrors offset (requestedSize offset size0) hits))"
proof -
  let ?q = "requestedRange offset size0"
  let ?sz = "requestedSize offset size0"
  let ?bs = "takeWhile (\<lambda>b. overlaps (resBinding_span b) ?q)
                 (dropWhile (\<lambda>b. \<not> overlaps (resBinding_span b) ?q) l)"
  have s: "sorted_wrt (\<lambda>a b. End (resBinding_span a) \<le> Start (resBinding_span b)) l"
    and w: "list_all (\<lambda>t. Start (resBinding_span t) \<le> End (resBinding_span t)) l"
    using ord by (simp_all add: ordered_spans_def sorted_wrt_map list_all_iff)
  have hits: "?bs = filter (\<lambda>b. overlaps (resBinding_span b) ?q) l"
    by (rule filter_overlaps_run [OF s w, symmetric])
  have q: "?q = \<lparr>Start = offset, End = offset + ?sz\<rparr>" by (simp add: requestedRange_def)
  have "\<forall>b\<in>set ?bs. Start (resBinding_span b) \<le> End (resBinding_span b) \<and>
              overlaps (resBinding_span b) \<lparr>Start = offset, End = offset + ?sz\<rparr>"
    using w unfolding q by (auto simp: list_all_iff dest: set_takeWhileD set_dropWhileD)
  then have "keptSubBindings offset ?sz ?bs =
      List.map_filter (clipBinding \<lparr>Start = offset, End = offset + ?sz\<rparr>) ?bs"
    using requestedRange_wf by (rule keptSubBindings_clip)
  then have kept: "keptSubBindings offset ?sz ?bs = spec_subBindingList l ?q"
    using hits unfolding spec_subBindingList_def q by simp
  show ?thesis
    unfolding getSubBindingList_eq Let_def kept unfolding hits ..
qed


text \<open>
  Claim C4. On an ordered binding list \<^verbatim>\<open>getSubBindingList\<close> returns, in order,
  the bindings that intersect the requested range, each clipped to the intersection:
  a binding backed by a memory span keeps its backing data with the span shrunk to
  the intersection, and a binding backed by a label is returned when the range
  covers it whole (and left out otherwise, see C8). The requested range starts at
  the offset and ends at offset + size, or at \<^verbatim>\<open>vkWholeSize\<close> when that sum
  wraps around.
\<close>

theorem C4_getSubBindingList_clips_to_requested_range:
  "ordered_spans (map resBinding_span l) \<Longrightarrow>
     (case getSubBindingList st bh l offset size0 of
        (st', bh', subBindings, logs) \<Rightarrow>
          subBindings = spec_subBindingList l (requestedRange offset size0)) \<and>
     Start (requestedRange offset size0) = offset \<and>
     (offset + size0 < offset \<longrightarrow> End (requestedRange offset size0) = vkWholeSize) \<and>
     (\<not> offset + size0 < offset \<longrightarrow> End (requestedRange offset size0) = offset + size0)"
proof -
  assume ord: "ordered_spans (map resBinding_span l)"
  let ?q = "requestedRange offset size0"
  let ?sz = "requestedSize offset size0"
  let ?bs = "takeWhile (\<lambda>b. overlaps (resBinding_span b) ?q)
                 (dropWhile (\<lambda>b. \<not> overlaps (resBinding_span b) ?q) l)"
  have s: "sorted_wrt (\<lambda>a b. End (resBinding_span a) \<le> Start (resBinding_span b)) l"
    and w: "list_all (\<lambda>t. Start (resBinding_span t) \<le> End (resBinding_span t)) l"
    using ord by (simp_all add: ordered_spans_def sorted_wrt_map list_all_iff)
  have hits: "?bs = filter (\<lambda>b. overlaps (resBinding_span b) ?q) l"
    by (rule filter_overlaps_run [OF s w, symmetric])
  have q: "?q = \<lparr>Start = offset, End = offset + ?sz\<rparr>" by (simp add: requestedRange_def)
  have "\<forall>b\<in>set ?bs. Start (resBinding_span b) \<le> End (resBinding_span b) \<and>
              overlaps (resBinding_span b) \<lparr>Start = offset, End = offset + ?sz\<rparr>"
    using w unfolding q by (auto simp: list_all_iff dest: set_takeWhileD set_dropWhileD)
  then have "keptSubBindings offset ?sz ?bs =
      List.map_filter (clipBinding \<lparr>Start = offset, End = offset + ?sz\<rparr>) ?bs"
    using requestedRange_wf by (rule keptSubBindings_clip)
  then have "keptSubBindings offset ?sz ?bs = spec_subBindingList l ?q"
    using hits unfolding spec_subBindingList_def q by simp
  then have "(case getSubBindingList st bh l offset size0 of
        (st', bh', subBindings, logs) \<Rightarrow> subBindings = spec_subBindingList l ?q)"
    by (simp add: getSubBindingList_eq Let_def)
  moreover have "offset + size0 < offset \<longrightarrow> End ?q = vkWholeSize"
    by (simp add: requestedRange_def requestedSize_def)
  moreover have "\<not> offset + size0 < offset \<longrightarrow> End ?q = offset + size0"
    by (simp add: requestedRange_def requestedSize_def)
  moreover have "Start ?q = offset" by (simp add: requestedRange_def)
  ultimately show ?thesis by blast
qed

theorem C4_getSubBindingList_clips_to_requested_range_witness:
  "ordered_spans (map resBinding_span
      [mkBinding 0 10 (BackingSpan (memSpan 1 100 110)),
       mkBinding 10 20 (BackingSpan (memSpan 2 0 20)),
       mkBinding 30 5 (BackingSpan (memSpan 3 0 5))]) \<and>
   (case getSubBindingList emptyEmitter None
      [mkBinding 0 10 (BackingSpan (memSpan 1 100 110)),
       mkBinding 10 20 (BackingSpan (memSpan 2 0 20)),
       mkBinding 30 5 (BackingSpan (memSpan 3 0 5))] 5 10 of
      (st', bh', subBindings, logs) \<Rightarrow>
        subBindings = [mkBinding 5 5 (BackingSpan (memSpan 1 105 110)),
                       mkBinding 10 5 (BackingSpan (memSpan 2 0 5))]) \<and>
   End (requestedRange 16 vkWholeSize) = vkWholeSize"
proof -
  let ?l = "[mkBinding 0 10 (BackingSpan (memSpan 1 100 110)),
       mkBinding 10 20 (BackingSpan (memSpan 2 0 20)),
       mkBinding 30 5 (BackingSpan (memSpan 3 0 5))]"
  have ord: "ordered_spans (map resBinding_span ?l)"
    by (simp add: ordered_spans_def resBinding_span_def resBinding_size_def mkBinding_def)
  have sp: "spec_subBindingList ?l (requestedRange 5 10) =
      [mkBinding 5 5 (BackingSpan (memSpan 1 105 110)), mkBinding 10 5 (BackingSpan (memSpan 2 0 5))]"
    by (simp add: spec_subBindingList_def requestedRange_def requestedSize_def clipBinding_def
        overlaps_def resBinding_span_def resBinding_size_def mkBinding_def memSpan_def
        List.map_filter_simps Let_def)
  have wrap: "(16 :: u64) + vkWholeSize < 16" by (simp add: vkWholeSize_def)
  show ?thesis
    using C4_getSubBindingList_clips_to_requested_range
        [OF ord, where st = emptyEmitter and bh = None and offset = 5 and ?size0.0 = 10]
      C4_getSubBindingList_clips_to_requested_range
        [OF ord, where st = emptyEmitter and bh = None and offset = 16 and ?size0.0 = vkWholeSize]
      ord wrap
    unfolding sp by simp
qed

text \<open>
  Claim C8. Each binding that \<^verbatim>\<open>getSubBindingList\<close> visits gives either one
  sub-binding or one entry of the error log: when \<^verbatim>\<open>shrink\<close> fails, the error is
  logged and the binding is left out, the sub-bindings of the bindings before and
  after it are returned all the same, and the function returns its list (it has no
  error result). \<^verbatim>\<open>shrink\<close> fails when offset plus size wraps around or exceeds
  the size of the binding, and when the backing data is not a memory span and the
  sub-range is not the whole binding.
\<close>

theorem C8_failed_sub_bindings_are_logged_and_dropped:
  "(case getSubBindingList st bh l offset size0 of
      (st', bh', subBindings, logs) \<Rightarrow>
        (case Intersect (map resBinding_span l) (requestedRange offset size0) of
           (first, count) \<Rightarrow>
             subBindings = keptSubBindings offset (requestedSize offset size0)
                             (map ((!) l) [first ..< first + count]) \<and>
             logs = loggedShrinkErrors offset (requestedSize offset size0)
                             (map ((!) l) [first ..< first + count]) \<and>
             length subBindings + length logs = count) \<and> st' = st) \<and>
   (subBindingOf offset1 size1 b = Inl err \<longrightarrow>
      keptSubBindings offset1 size1 (bs1 @ b # bs2) =
        keptSubBindings offset1 size1 bs1 @ keptSubBindings offset1 size1 bs2 \<and>
      loggedShrinkErrors offset1 size1 (bs1 @ b # bs2) =
        loggedShrinkErrors offset1 size1 bs1 @ [LogShrinkError err] @
        loggedShrinkErrors offset1 size1 bs2) \<and>
   (off + (if sz = vkWholeSize then bindSize bd - off else sz) < off \<or>
    off + (if sz = vkWholeSize then bindSize bd - off else sz) > bindSize bd \<longrightarrow>
      resBinding_shrink bd off sz =
        Inl (shrinkOutOfMemBindingBound off (if sz = vkWholeSize then bindSize bd - off else sz))) \<and>
   (\<not> off2 + sz2 < off2 \<and> \<not> off2 + sz2 > bindSize bd2 \<and> sz2 \<noteq> vkWholeSize \<and>
    backingData bd2 = BackingLabel n \<and> (off2 \<noteq> 0 \<or> sz2 \<noteq> bindSize bd2) \<longrightarrow>
      resBinding_shrink bd2 off2 sz2 = Inl CannotShrinkNonSpan)"
proof (intro conjI impI)
  obtain first count where ic:
    "Intersect (map resBinding_span l) (requestedRange offset size0) = (first, count)"
    by (cases "Intersect (map resBinding_span l) (requestedRange offset size0)")
  let ?bs = "map ((!) l) [first ..< first + count]"
  have bs: "takeWhile (\<lambda>b. overlaps (resBinding_span b) (requestedRange offset size0))
                 (dropWhile (\<lambda>b. \<not> overlaps (resBinding_span b) (requestedRange offset size0)) l) = ?bs"
    by (rule Intersect_take_drop [OF ic, symmetric])
  have len: "length (keptSubBindings offset (requestedSize offset size0) xs) +
        length (loggedShrinkErrors offset (requestedSize offset size0) xs) = length xs" for xs
    by (induction xs)
       (simp_all add: keptSubBindings_def loggedShrinkErrors_def split: sum.splits)
  show "case getSubBindingList st bh l offset size0 of
      (st', bh', subBindings, logs) \<Rightarrow>
        (case Intersect (map resBinding_span l) (requestedRange offset size0) of
           (first, count) \<Rightarrow>
             subBindings = keptSubBindings offset (requestedSize offset size0)
                             (map ((!) l) [first ..< first + count]) \<and>
             logs = loggedShrinkErrors offset (requestedSize offset size0)
                             (map ((!) l) [first ..< first + count]) \<and>
             length subBindings + length logs = count) \<and> st' = st"
    unfolding getSubBindingList_eq Let_def bs using len [of ?bs] by (simp add: ic)
next
  assume "subBindingOf offset1 size1 b = Inl err"
  then show "keptSubBindings offset1 size1 (bs1 @ b # bs2) =
        keptSubBindings offset1 size1 bs1 @ keptSubBindings offset1 size1 bs2"
    and "loggedShrinkErrors offset1 size1 (bs1 @ b # bs2) =
        loggedShrinkErrors offset1 size1 bs1 @ [LogShrinkError err] @
        loggedShrinkErrors offset1 size1 bs2"
    by (simp_all add: keptSubBindings_def loggedShrinkErrors_def)
next
  assume a: "off + (if sz = vkWholeSize then bindSize bd - off else sz) < off \<or>
    off + (if sz = vkWholeSize then bindSize bd - off else sz) > bindSize bd"
  define sz1 where "sz1 = (if sz = vkWholeSize then bindSize bd - off else sz)"
  have "off + sz1 < off \<or> bindSize bd < off + sz1" using a by (simp only: sz1_def)
  then have "resBinding_shrink bd off sz = Inl (shrinkOutOfMemBindingBound off sz1)"
    unfolding resBinding_shrink_def Let_def resBinding_size_def sz1_def [symmetric] by auto
  then show "resBinding_shrink bd off sz =
        Inl (shrinkOutOfMemBindingBound off (if sz = vkWholeSize then bindSize bd - off else sz))"
    by (simp only: sz1_def)
next
  assume "\<not> off2 + sz2 < off2 \<and> \<not> off2 + sz2 > bindSize bd2 \<and> sz2 \<noteq> vkWholeSize \<and>
    backingData bd2 = BackingLabel n \<and> (off2 \<noteq> 0 \<or> sz2 \<noteq> bindSize bd2)"
  then show "resBinding_shrink bd2 off2 sz2 = Inl CannotShrinkNonSpan"
    by (auto simp: resBinding_shrink_def resBinding_size_def Let_def)
qed

theorem C8_failed_sub_bindings_are_logged_and_dropped_witness:
  "(case getSubBindingList emptyEmitter None
      [mkBinding 0 10 (BackingSpan (memSpan 1 100 110)),
       mkBinding 10 20 (BackingLabel 7),
       mkBinding 30 5 (BackingSpan (memSpan 3 0 5))] 15 20 of
      (st', bh', subBindings, logs) \<Rightarrow>
        subBindings = [mkBinding 30 5 (BackingSpan (memSpan 3 0 5))] \<and>
        logs = [LogShrinkError CannotShrinkNonSpan] \<and> st' = emptyEmitter) \<and>
   subBindingOf 15 20 (mkBinding 10 20 (BackingLabel 7)) = Inl CannotShrinkNonSpan \<and>
   keptSubBindings 15 20
      ([] @ mkBinding 10 20 (BackingLabel 7) # [mkBinding 30 5 (BackingSpan (memSpan 3 0 5))]) =
     keptSubBindings 15 20 [] @
     keptSubBindings 15 20 [mkBinding 30 5 (BackingSpan (memSpan 3 0 5))] \<and>
   resBinding_shrink (mkBinding 0 5 (BackingSpan (memSpan 1 0 5))) 3 4 =
     Inl (shrinkOutOfMemBindingBound 3 4) \<and>
   resBinding_shrink (mkBinding 10 20 (BackingLabel 7)) 5 15 = Inl CannotShrinkNonSpan"
proof -
  let ?lab = "mkBinding 10 20 (BackingLabel 7)"
  let ?s3 = "mkBinding 30 5 (BackingSpan (memSpan 3 0 5))"
  let ?l = "[mkBinding 0 10 (BackingSpan (memSpan 1 100 110)), ?lab, ?s3]"
  have i: "Intersect (map resBinding_span ?l) (requestedRange 15 20) = (1, 2)"
    by (simp add: Intersect_def requestedRange_def requestedSize_def overlaps_def
        resBinding_span_def resBinding_size_def mkBinding_def Let_def)
  have bsv: "map ((!) ?l) [1 ..< 1 + 2] = [?lab, ?s3]" by (simp add: upt_rec)
  have rs: "requestedSize 15 20 = 20" by (simp add: requestedSize_def)
  have t1: "subBindingOf 15 20 ?lab = Inl CannotShrinkNonSpan"
    and t2: "subBindingOf 15 20 ?s3 = Inr ?s3"
    by (simp_all add: subBindingOf_def resBinding_shrink_def resBinding_duplicate_def
        memorySpan_duplicate_def clipStart_def clipEnd_def resBinding_span_def resBinding_size_def
        mkBinding_def memSpan_def vkWholeSize_def Let_def)
  have kept: "keptSubBindings 15 20 [?lab, ?s3] = [?s3]"
    and logged: "loggedShrinkErrors 15 20 [?lab, ?s3] = [LogShrinkError CannotShrinkNonSpan]"
    by (simp_all add: keptSubBindings_def loggedShrinkErrors_def t1 t2)
  have oob: "(3 :: u64) + (if (4 :: u64) = vkWholeSize
                 then bindSize (mkBinding 0 5 (BackingSpan (memSpan 1 0 5))) - 3 else 4)
             > bindSize (mkBinding 0 5 (BackingSpan (memSpan 1 0 5)))"
    and nw: "(if (4 :: u64) = vkWholeSize
                 then bindSize (mkBinding 0 5 (BackingSpan (memSpan 1 0 5))) - 3 else 4) = 4"
    by (simp_all add: vkWholeSize_def mkBinding_def)
  have part: "\<not> (5::u64) + 15 < 5 \<and> \<not> (5::u64) + 15 > bindSize ?lab \<and> (15::u64) \<noteq> vkWholeSize \<and>
      backingData ?lab = BackingLabel 7 \<and> ((5::u64) \<noteq> 0 \<or> (15::u64) \<noteq> bindSize ?lab)"
    by (simp add: vkWholeSize_def mkBinding_def)
  note inst = C8_failed_sub_bindings_are_logged_and_dropped
      [where st = emptyEmitter and bh = None and l = "?l" and offset = 15 and ?size0.0 = 20
         and ?offset1.0 = 15 and ?size1.0 = 20 and b = "?lab" and err = CannotShrinkNonSpan
         and ?bs1.0 = "[]" and ?bs2.0 = "[?s3]"
         and off = 3 and sz = 4 and bd = "mkBinding 0 5 (BackingSpan (memSpan 1 0 5))"
         and ?off2.0 = 5 and ?sz2.0 = 15 and ?bd2.0 = "?lab" and n = 7]
  have a0: "case getSubBindingList emptyEmitter None ?l 15 20 of
      (st', bh', subBindings, logs) \<Rightarrow>
        (subBindings = keptSubBindings 15 20 [?lab, ?s3] \<and>
         logs = loggedShrinkErrors 15 20 [?lab, ?s3] \<and>
         length subBindings + length logs = 2) \<and> st' = emptyEmitter"
    using inst [THEN conjunct1] unfolding i rs prod.case bsv .
  have a: "case getSubBindingList emptyEmitter None ?l 15 20 of
      (st', bh', subBindings, logs) \<Rightarrow>
        subBindings = [?s3] \<and> logs = [LogShrinkError CannotShrinkNonSpan] \<and> st' = emptyEmitter"
    using a0 unfolding kept logged by (auto split: prod.splits)
  have b: "keptSubBindings 15 20 ([] @ ?lab # [?s3]) =
     keptSubBindings 15 20 [] @ keptSubBindings 15 20 [?s3]"
    using inst t1 by simp
  have c: "resBinding_shrink (mkBinding 0 5 (BackingSpan (memSpan 1 0 5))) 3 4 =
     Inl (shrinkOutOfMemBindingBound 3 4)"
    using inst oob nw by simp
  have d: "resBinding_shrink ?lab 5 15 = Inl CannotShrinkNonSpan"
    using inst part by simp
  from a t1 b c d show ?thesis by simp
qed
subsection \<open>The index buffer range of an indexed draw\<close>

lemma unat_index_mult:
  fixes x :: u32
  shows "unat ((ucast x :: u64) * word_of_int (VkIndexType_size t)) = unat x * nat (VkIndexType_size t)"
proof -
  have x: "unat x < 2 ^ 32" using unsigned_less [of x, where ?'a = nat] by simp
  have ux: "unat (ucast x :: u64) = unat x"
    using x by (simp add: unsigned_ucast_eq take_bit_nat_eq_self)
  have s: "unat (word_of_int (VkIndexType_size t) :: u64) = nat (VkIndexType_size t)"
    and le: "nat (VkIndexType_size t) \<le> 4"
    by (cases t; simp add: VkIndexType_size_def)+
  have "unat x * nat (VkIndexType_size t) \<le> unat x * 4" using le by (rule mult_le_mono2)
  also have "\<dots> < 2 ^ 64" using x by simp
  finally show ?thesis by (simp add: unat_word_ariths ux s)
qed

lemma index_range_no_wrap:
  fixes fi cnt :: u32
  shows "unat ((ucast fi :: u64) * word_of_int (VkIndexType_size t)
               + ucast cnt * word_of_int (VkIndexType_size t)) =
         (unat fi + unat cnt) * nat (VkIndexType_size t)"
proof -
  have f: "unat fi < 2 ^ 32" and c: "unat cnt < 2 ^ 32"
    using unsigned_less [of fi, where ?'a = nat] unsigned_less [of cnt, where ?'a = nat] by simp_all
  have le: "nat (VkIndexType_size t) \<le> 4" by (cases t; simp add: VkIndexType_size_def)
  have "(unat fi + unat cnt) * nat (VkIndexType_size t) \<le> (unat fi + unat cnt) * 4"
    using le by (rule mult_le_mono2)
  also have "\<dots> < 2 ^ 64" using f c by simp
  finally show ?thesis
    by (simp add: unat_word_ariths(1) unat_index_mult add_mult_distrib)
qed

lemma indexed_requestedRange:
  "requestedRange (indexReadOffset t (VkCmdDrawIndexed cnt fi)) (indexReadSize t (VkCmdDrawIndexed cnt fi)) =
     \<lparr>Start = ucast fi * word_of_int (VkIndexType_size t),
      End = ucast fi * word_of_int (VkIndexType_size t) + ucast cnt * word_of_int (VkIndexType_size t)\<rparr>"
proof -
  let ?o = "(ucast fi :: u64) * word_of_int (VkIndexType_size t)"
  let ?s = "(ucast cnt :: u64) * word_of_int (VkIndexType_size t)"
  have "unat ?o \<le> unat (?o + ?s)"
    by (simp add: index_range_no_wrap unat_index_mult add_mult_distrib)
  then have "\<not> ?o + ?s < ?o" by (simp add: word_less_nat_alt)
  then show ?thesis
    by (simp add: requestedRange_def requestedSize_def indexReadOffset_def indexReadSize_def)
qed

lemma getBoundData_ordered:
  assumes "ordered_spans (map resBinding_span l)"
  shows "getBoundData st (Some h) l offset size0 =
     (let q = requestedRange offset size0;
          hits = filter (\<lambda>b. overlaps (resBinding_span b) q) l
      in (st,
          Some (h\<lparr>Reads := Reads h @ map ResBinding hits,
                  Writes := Writes h @ map ResBinding (spec_subBindingList l q)\<rparr>),
          map (\<lambda>b. backingVar (backingData b)) (spec_subBindingList l q),
          loggedShrinkErrors offset (requestedSize offset size0) hits))"
  by (simp add: getBoundData_def getSubBindingList_ordered [OF assms] Let_def)

lemma readBoundIndexBuffer_DrawIndexed:
  assumes "ordered_spans (map resBinding_span (indexBufferResBindings cbs))"
  shows "readBoundIndexBuffer st bh cbs (VkCmdDrawIndexed cnt fi) =
     (let s = (word_of_int (VkIndexType_size (indexType cbs)) :: u64);
          q = \<lparr>Start = ucast fi * s, End = ucast fi * s + ucast cnt * s\<rparr>;
          hits = filter (\<lambda>b. overlaps (resBinding_span b) q) (indexBufferResBindings cbs);
          subs = spec_subBindingList (indexBufferResBindings cbs) q
      in case read st (bh\<lparr>Reads := Reads bh @ map ResBinding hits,
                            Writes := Writes bh @ map ResBinding subs\<rparr>)
                 (map (\<lambda>b. backingVar (backingData b)) subs) of
           (st2, bh2, ok) \<Rightarrow>
             (st2, bh2,
              (if s = 0 then [LogInvalidIndexSize] else []) @
              loggedShrinkErrors (ucast fi * s) (ucast cnt * s) hits))"
proof -
  let ?t = "indexType cbs"
  let ?o = "indexReadOffset ?t (VkCmdDrawIndexed cnt fi)"
  let ?z = "indexReadSize ?t (VkCmdDrawIndexed cnt fi)"
  have o: "?o = ucast fi * word_of_int (VkIndexType_size ?t)"
    and z: "?z = ucast cnt * word_of_int (VkIndexType_size ?t)"
    by (simp_all add: indexReadOffset_def indexReadSize_def)
  have rr: "requestedRange ?o ?z =
      \<lparr>Start = ucast fi * word_of_int (VkIndexType_size ?t),
       End = ucast fi * word_of_int (VkIndexType_size ?t) + ucast cnt * word_of_int (VkIndexType_size ?t)\<rparr>"
    by (rule indexed_requestedRange)
  have rs: "requestedSize ?o ?z = ?z"
    using rr by (simp add: requestedRange_def o z)
  show ?thesis
    unfolding readBoundIndexBuffer_def Let_def getBoundData_ordered [OF assms] rr rs
    by (simp add: o z split: prod.splits)
qed

lemma indexed_draw_example:
  "readBoundIndexBuffer
      (emptyEmitter\<lparr>records := [1 \<mapsto> [memSpan 1 0 6, memSpan 1 6 12]]\<rparr>) (NewBehavior [9])
      \<lparr>vertexBufferResBindings = [],
       indexBufferResBindings = [mkBinding 0 100 (BackingSpan (memSpan 1 0 100))],
       indexType = VK_INDEX_TYPE_UINT16, pipeline = 3, dynamicState = 4\<rparr>
      (VkCmdDrawIndexed 3 2) =
     (emptyEmitter\<lparr>records := [1 \<mapsto> [memSpan 1 0 6, memSpan 1 6 12]]\<rparr>,
      (NewBehavior [9])
        \<lparr>Reads := [ResBinding (mkBinding 0 100 (BackingSpan (memSpan 1 0 100))),
                   MemorySpan (memSpan 1 0 6), MemorySpan (memSpan 1 6 12)],
         Writes := [ResBinding (mkBinding 4 6 (BackingSpan (memSpan 1 4 10)))]\<rparr>,
      [])"
proof -
  let ?b = "mkBinding 0 100 (BackingSpan (memSpan 1 0 100))"
  let ?cbs = "\<lparr>vertexBufferResBindings = [], indexBufferResBindings = [?b],
       indexType = VK_INDEX_TYPE_UINT16, pipeline = 3, dynamicState = 4\<rparr>"
  let ?q = "\<lparr>Start = (4 :: u64), End = 10\<rparr>"
  have ord: "ordered_spans (map resBinding_span (indexBufferResBindings ?cbs))"
    by (simp add: ordered_spans_def resBinding_span_def resBinding_size_def mkBinding_def)
  have s: "(word_of_int (VkIndexType_size (indexType ?cbs)) :: u64) = 2"
    by (simp add: VkIndexType_size_def)
  have hits: "filter (\<lambda>b. overlaps (resBinding_span b) ?q) [?b] = [?b]"
    by (simp add: overlaps_def resBinding_span_def resBinding_size_def mkBinding_def)
  have subs: "spec_subBindingList [?b] ?q = [mkBinding 4 6 (BackingSpan (memSpan 1 4 10))]"
    by (simp add: spec_subBindingList_def clipBinding_def overlaps_def resBinding_span_def
        resBinding_size_def mkBinding_def memSpan_def List.map_filter_simps Let_def)
  have logs: "loggedShrinkErrors 4 6 [?b] = []"
    by (simp add: loggedShrinkErrors_def subBindingOf_def resBinding_shrink_def
        resBinding_duplicate_def memorySpan_duplicate_def clipStart_def clipEnd_def
        resBinding_span_def resBinding_size_def mkBinding_def memSpan_def vkWholeSize_def Let_def)
  have rd: "read (emptyEmitter\<lparr>records := [1 \<mapsto> [memSpan 1 0 6, memSpan 1 6 12]]\<rparr>) h
            [MemorySpan (memSpan 1 4 10)] =
      (emptyEmitter\<lparr>records := [1 \<mapsto> [memSpan 1 0 6, memSpan 1 6 12]]\<rparr>,
       h\<lparr>Reads := Reads h @ [MemorySpan (memSpan 1 0 6), MemorySpan (memSpan 1 6 12)]\<rparr>, True)" for h
    by (simp add: read_def recordsOf_def Intersect_def overlaps_def memorySpan_span_def
        memSpan_def Behavior_Read_def Let_def upt_rec)
  have ov: "overlaps (resBinding_span ?b) ?q"
    by (simp add: overlaps_def resBinding_span_def resBinding_size_def mkBinding_def)
  have bd: "backingData (mkBinding 4 6 (BackingSpan (memSpan 1 4 10))) = BackingSpan (memSpan 1 4 10)"
    by (simp add: mkBinding_def)
  show ?thesis
    unfolding readBoundIndexBuffer_DrawIndexed [OF ord] Let_def s
    by (simp add: ov subs logs rd backingVar_def NewBehavior_def bd)
qed

text \<open>
  Claim C7, as amended. For an executed \<^verbatim>\<open>VkCmdDrawIndexed\<close> the behavior reads
  the data bound to the index buffer over the range that starts at
  \<open>firstIndex * indexSize\<close> and has the size \<open>count * indexSize\<close>, so it ends at
  \<open>(firstIndex + count) * indexSize\<close> (the products and the sum do not wrap);
  \<open>indexSize\<close> is 2 for \<^verbatim>\<open>VK_INDEX_TYPE_UINT16\<close> and 4 for
  \<^verbatim>\<open>VK_INDEX_TYPE_UINT32\<close>. On an ordered binding list the behavior reads the
  bindings that intersect this range, writes their sub-bindings and reads the
  backing data of the sub-bindings.
\<close>

theorem C7_indexed_draw_reads_first_to_first_plus_count:
  "ordered_spans (map resBinding_span (indexBufferResBindings cbs)) \<Longrightarrow>
     (let s = (word_of_int (VkIndexType_size (indexType cbs)) :: u64);
          q = \<lparr>Start = ucast fi * s, End = ucast fi * s + ucast cnt * s\<rparr>;
          hits = filter (\<lambda>b. overlaps (resBinding_span b) q) (indexBufferResBindings cbs);
          subs = spec_subBindingList (indexBufferResBindings cbs) q
      in (case readBoundIndexBuffer st bh cbs (VkCmdDrawIndexed cnt fi) of
            (st', bh', logs) \<Rightarrow>
              (case read st (bh\<lparr>Reads := Reads bh @ map ResBinding hits,
                                  Writes := Writes bh @ map ResBinding subs\<rparr>)
                       (map (\<lambda>b. backingVar (backingData b)) subs) of
                 (st2, bh2, ok) \<Rightarrow> st' = st2 \<and> bh' = bh2)) \<and>
         requestedRange (indexReadOffset (indexType cbs) (VkCmdDrawIndexed cnt fi))
                        (indexReadSize (indexType cbs) (VkCmdDrawIndexed cnt fi)) = q \<and>
         unat (Start q) = unat fi * nat (VkIndexType_size (indexType cbs)) \<and>
         unat (End q) = (unat fi + unat cnt) * nat (VkIndexType_size (indexType cbs))) \<and>
     VkIndexType_size VK_INDEX_TYPE_UINT16 = 2 \<and>
     VkIndexType_size VK_INDEX_TYPE_UINT32 = 4"
proof -
  assume ord: "ordered_spans (map resBinding_span (indexBufferResBindings cbs))"
  define s :: u64 where "s = word_of_int (VkIndexType_size (indexType cbs))"
  define q where "q = \<lparr>Start = ucast fi * s, End = ucast fi * s + ucast cnt * s\<rparr>"
  define hits where
    "hits = filter (\<lambda>b. overlaps (resBinding_span b) q) (indexBufferResBindings cbs)"
  define subs where "subs = spec_subBindingList (indexBufferResBindings cbs) q"
  obtain st2 bh2 ok where r:
    "read st (bh\<lparr>Reads := Reads bh @ map ResBinding hits,
                     Writes := Writes bh @ map ResBinding subs\<rparr>)
          (map (\<lambda>b. backingVar (backingData b)) subs) = (st2, bh2, ok)"
    by (cases "read st (bh\<lparr>Reads := Reads bh @ map ResBinding hits,
                     Writes := Writes bh @ map ResBinding subs\<rparr>)
          (map (\<lambda>b. backingVar (backingData b)) subs)") auto
  have "readBoundIndexBuffer st bh cbs (VkCmdDrawIndexed cnt fi) =
      (st2, bh2, (if s = 0 then [LogInvalidIndexSize] else []) @
                 loggedShrinkErrors (ucast fi * s) (ucast cnt * s) hits)"
    unfolding readBoundIndexBuffer_DrawIndexed [OF ord] Let_def
      s_def [symmetric] q_def [symmetric] hits_def [symmetric] subs_def [symmetric] r
    by simp
  then have 1: "case readBoundIndexBuffer st bh cbs (VkCmdDrawIndexed cnt fi) of
            (st', bh', logs) \<Rightarrow>
              (case read st (bh\<lparr>Reads := Reads bh @ map ResBinding hits,
                                  Writes := Writes bh @ map ResBinding subs\<rparr>)
                       (map (\<lambda>b. backingVar (backingData b)) subs) of
                 (st2, bh2, ok) \<Rightarrow> st' = st2 \<and> bh' = bh2)"
    by (simp add: r)
  have 2: "requestedRange (indexReadOffset (indexType cbs) (VkCmdDrawIndexed cnt fi))
                        (indexReadSize (indexType cbs) (VkCmdDrawIndexed cnt fi)) = q"
    by (simp add: indexed_requestedRange q_def s_def)
  have 3: "unat (Start q) = unat fi * nat (VkIndexType_size (indexType cbs))"
    by (simp add: q_def s_def unat_index_mult)
  have 4: "unat (End q) = (unat fi + unat cnt) * nat (VkIndexType_size (indexType cbs))"
    by (simp add: q_def s_def index_range_no_wrap)
  have 5: "VkIndexType_size VK_INDEX_TYPE_UINT16 = 2 \<and> VkIndexType_size VK_INDEX_TYPE_UINT32 = 4"
    by (simp add: VkIndexType_size_def)
  show ?thesis
    unfolding Let_def s_def [symmetric] q_def [symmetric] hits_def [symmetric] subs_def [symmetric]
    using 1 2 3 4 5 by blast
qed

theorem C7_indexed_draw_reads_first_to_first_plus_count_witness:
  "ordered_spans (map resBinding_span
      (indexBufferResBindings
        \<lparr>vertexBufferResBindings = [],
         indexBufferResBindings = [mkBinding 0 100 (BackingSpan (memSpan 1 0 100))],
         indexType = VK_INDEX_TYPE_UINT16, pipeline = 3, dynamicState = 4\<rparr>)) \<and>
   requestedRange (indexReadOffset VK_INDEX_TYPE_UINT16 (VkCmdDrawIndexed 3 2))
                  (indexReadSize VK_INDEX_TYPE_UINT16 (VkCmdDrawIndexed 3 2)) =
     \<lparr>Start = 4, End = 10\<rparr> \<and>
   (case readBoundIndexBuffer
      (emptyEmitter\<lparr>records := [1 \<mapsto> [memSpan 1 0 6, memSpan 1 6 12]]\<rparr>) (NewBehavior [9])
      \<lparr>vertexBufferResBindings = [],
       indexBufferResBindings = [mkBinding 0 100 (BackingSpan (memSpan 1 0 100))],
       indexType = VK_INDEX_TYPE_UINT16, pipeline = 3, dynamicState = 4\<rparr>
      (VkCmdDrawIndexed 3 2) of
      (st', bh', logs) \<Rightarrow>
        Reads bh' = [ResBinding (mkBinding 0 100 (BackingSpan (memSpan 1 0 100))),
                     MemorySpan (memSpan 1 0 6), MemorySpan (memSpan 1 6 12)])"
proof -
  let ?cbs = "\<lparr>vertexBufferResBindings = [],
       indexBufferResBindings = [mkBinding 0 100 (BackingSpan (memSpan 1 0 100))],
       indexType = VK_INDEX_TYPE_UINT16, pipeline = 3, dynamicState = 4\<rparr>"
  have ord: "ordered_spans (map resBinding_span (indexBufferResBindings ?cbs))"
    by (simp add: ordered_spans_def resBinding_span_def resBinding_size_def mkBinding_def)
  have s: "(word_of_int (VkIndexType_size (indexType ?cbs)) :: u64) = 2"
    by (simp add: VkIndexType_size_def)
  have rr: "requestedRange (indexReadOffset VK_INDEX_TYPE_UINT16 (VkCmdDrawIndexed 3 2))
                  (indexReadSize VK_INDEX_TYPE_UINT16 (VkCmdDrawIndexed 3 2)) =
     \<lparr>Start = 4, End = 10\<rparr>"
    using C7_indexed_draw_reads_first_to_first_plus_count
      [OF ord, where fi = 2 and cnt = 3 and bh = "NewBehavior [9]"
        and st = "emptyEmitter\<lparr>records := [1 \<mapsto> [memSpan 1 0 6, memSpan 1 6 12]]\<rparr>"]
    unfolding Let_def s by simp
  show ?thesis
    using ord rr by (simp add: indexed_draw_example)
qed

theorem C7_range_end_is_not_count_times_index_size:
  "spec_indexRange VK_INDEX_TYPE_UINT16 (VkCmdDrawIndexed 3 2) = \<lparr>Start = 4, End = 6\<rparr> \<and>
   requestedRange (indexReadOffset VK_INDEX_TYPE_UINT16 (VkCmdDrawIndexed 3 2))
                  (indexReadSize VK_INDEX_TYPE_UINT16 (VkCmdDrawIndexed 3 2)) =
     \<lparr>Start = 4, End = 10\<rparr> \<and>
   (case readBoundIndexBuffer
      (emptyEmitter\<lparr>records := [1 \<mapsto> [memSpan 1 0 6, memSpan 1 6 12]]\<rparr>) (NewBehavior [9])
      \<lparr>vertexBufferResBindings = [],
       indexBufferResBindings = [mkBinding 0 100 (BackingSpan (memSpan 1 0 100))],
       indexType = VK_INDEX_TYPE_UINT16, pipeline = 3, dynamicState = 4\<rparr>
      (VkCmdDrawIndexed 3 2) of
      (st', bh', logs) \<Rightarrow> MemorySpan (memSpan 1 6 12) \<in> set (Reads bh')) \<and>
   \<not> overlaps (memorySpan_span (memSpan 1 6 12))
       (spec_indexRange VK_INDEX_TYPE_UINT16 (VkCmdDrawIndexed 3 2))"
proof -
  have sr: "spec_indexRange VK_INDEX_TYPE_UINT16 (VkCmdDrawIndexed 3 2) = \<lparr>Start = 4, End = 6\<rparr>"
    by (simp add: spec_indexRange_def VkIndexType_size_def)
  have rr: "requestedRange (indexReadOffset VK_INDEX_TYPE_UINT16 (VkCmdDrawIndexed 3 2))
                  (indexReadSize VK_INDEX_TYPE_UINT16 (VkCmdDrawIndexed 3 2)) =
     \<lparr>Start = 4, End = 10\<rparr>"
    by (simp add: indexed_requestedRange VkIndexType_size_def)
  have no: "\<not> overlaps (memorySpan_span (memSpan 1 6 12)) \<lparr>Start = 4, End = 6\<rparr>"
    by (simp add: overlaps_def memorySpan_span_def memSpan_def)
  show ?thesis
    unfolding sr using rr no by (simp add: indexed_draw_example)
qed
subsection \<open>Deferred commands of a command buffer\<close>

lemma vb_read_VkHandle:
  "vb_read vb bh [VkHandle h] =
     (vb, if h = 0 then bh else Behavior_Read bh (VkHandle h), h \<noteq> 0)"
  by (simp add: vb_read_def read_def)

lemma vb_read_Label: "vb_read vb bh [Label l] = (vb, Behavior_Read bh (Label l), True)"
  by (simp add: vb_read_def read_def)

lemma vb_write_VkHandle:
  "vb_write vb bh [VkHandle h] =
     (vb, if h = 0 then bh else Behavior_Write bh (VkHandle h), h \<noteq> 0)"
  by (simp add: vb_write_def write'_def)

lemma vb_write_Label: "vb_write vb bh [Label l] = (vb, Behavior_Write bh (Label l), True)"
  by (simp add: vb_write_def write'_def)

lemma vb_write_CommandBufferCommand:
  "vb_write vb bh [CommandBufferCommand n] = (vb, Behavior_Write bh (CommandBufferCommand n), True)"
  by (simp add: vb_write_def write'_def)

lemma reset_clears_commands:
  assumes "commandBuffers vb vkCb = Some cb"
  shows "commandsOf (fst (BuildFootprint_VkResetCommandBuffer vb bh vkCb)) vkCb = []"
    and "nextCommandId (fst (BuildFootprint_VkResetCommandBuffer vb bh vkCb)) = nextCommandId vb"
    and "commandBuffers (fst (BuildFootprint_VkResetCommandBuffer vb bh vkCb)) = commandBuffers vb"
  using assms
  by (simp_all add: BuildFootprint_VkResetCommandBuffer_def vb_read_VkHandle vb_write_Label
      commandsOf_def)

lemma begin_clears_commands:
  assumes "commandBuffers vb vkCb = Some cb"
  shows "commandsOf (fst (BuildFootprint_VkBeginCommandBuffer vb bh vkCb)) vkCb = []"
    and "nextCommandId (fst (BuildFootprint_VkBeginCommandBuffer vb bh vkCb)) = nextCommandId vb"
    and "commandBuffers (fst (BuildFootprint_VkBeginCommandBuffer vb bh vkCb)) = commandBuffers vb"
  using assms
  by (simp_all add: BuildFootprint_VkBeginCommandBuffer_def vb_read_VkHandle vb_write_Label
      commandsOf_def)

lemma newCommand_effect:
  assumes "newCommand vb bh k = (vb', bh', r)"
  shows "commandsOf vb' vkCb =
           commandsOf vb vkCb @ (case r of None \<Rightarrow> [] | Some cbc \<Rightarrow> if k = vkCb then [cbc] else [])"
    and "nextCommandId vb' = Suc (nextCommandId vb)"
    and "\<forall>cbc. r = Some cbc \<longrightarrow> cbcId cbc = nextCommandId vb"
  using assms
  by (auto simp: newCommand_def vb_read_VkHandle vb_read_Label vb_write_CommandBufferCommand
      commandsOf_def Let_def split: option.splits)

lemma recordCommands_effect:
  "recordCommands vb bh ks = (vb', recorded) \<Longrightarrow>
     commandsOf vb' vkCb =
       commandsOf vb vkCb @ map snd (filter (\<lambda>(k, c). k = vkCb) recorded) \<and>
     (\<forall>(k, c) \<in> set recorded. nextCommandId vb \<le> cbcId c) \<and>
     nextCommandId vb \<le> nextCommandId vb'"
proof (induction ks arbitrary: vb vb' recorded)
  case Nil
  then show ?case by simp
next
  case (Cons k ks)
  obtain vb1 bh1 r where n: "newCommand vb bh k = (vb1, bh1, r)"
    by (cases "newCommand vb bh k") auto
  obtain vb2 rec2 where rc: "recordCommands vb1 bh ks = (vb2, rec2)"
    by (cases "recordCommands vb1 bh ks") auto
  note ne = newCommand_effect [OF n]
  note ih = Cons.IH [OF rc]
  have eqs: "vb' = vb2" "recorded = (case r of None \<Rightarrow> [] | Some cbc \<Rightarrow> [(k, cbc)]) @ rec2"
    using Cons.prems by (simp_all add: n rc)
  have 1: "commandsOf vb' vkCb =
       commandsOf vb vkCb @ map snd (filter (\<lambda>(k, c). k = vkCb) recorded)"
    using ih ne(1) [of vkCb] unfolding eqs by (auto split: option.splits)
  have 2: "\<forall>(k, c) \<in> set recorded. nextCommandId vb \<le> cbcId c"
    using ih ne(2) ne(3) unfolding eqs by (auto split: option.splits)
  have 3: "nextCommandId vb \<le> nextCommandId vb'"
    using ih ne(2) unfolding eqs by simp
  from 1 2 3 show ?case by blast
qed

text \<open>
  Claim C5. After \<^verbatim>\<open>VkBeginCommandBuffer\<close> or \<^verbatim>\<open>VkResetCommandBuffer\<close> on a
  command buffer with a shadow entry, the list of deferred commands of that command
  buffer is empty. So when commands are recorded after a reset, the list holds
  exactly the commands of this command buffer recorded since, all of them allocated
  after the reset.
\<close>

theorem C5_begin_and_reset_clear_deferred_commands:
  "commandBuffers vb vkCb = Some cb \<Longrightarrow>
     commandsOf (fst (BuildFootprint_VkBeginCommandBuffer vb bh vkCb)) vkCb = [] \<and>
     commandsOf (fst (BuildFootprint_VkResetCommandBuffer vb bh vkCb)) vkCb = [] \<and>
     (case recordCommands (fst (BuildFootprint_VkResetCommandBuffer vb bh vkCb)) bh2 ks of
        (vb', recorded) \<Rightarrow>
          commandsOf vb' vkCb = map snd (filter (\<lambda>(k, c). k = vkCb) recorded) \<and>
          (\<forall>c \<in> set (commandsOf vb' vkCb). nextCommandId vb \<le> cbcId c))"
proof -
  assume cb: "commandBuffers vb vkCb = Some cb"
  let ?vb1 = "fst (BuildFootprint_VkResetCommandBuffer vb bh vkCb)"
  obtain vb' recorded where rc: "recordCommands ?vb1 bh2 ks = (vb', recorded)"
    by (cases "recordCommands ?vb1 bh2 ks") auto
  note re = recordCommands_effect [OF rc, of vkCb]
  have c: "commandsOf vb' vkCb = map snd (filter (\<lambda>(k, c). k = vkCb) recorded)"
    using re reset_clears_commands(1) [OF cb, of bh] by simp
  have "\<forall>(k, c) \<in> set recorded. nextCommandId vb \<le> cbcId c"
    using re reset_clears_commands(2) [OF cb, of bh] by simp
  then have f: "\<forall>c \<in> set (commandsOf vb' vkCb). nextCommandId vb \<le> cbcId c"
    unfolding c by auto
  show ?thesis
    using begin_clears_commands(1) [OF cb, of bh] reset_clears_commands(1) [OF cb, of bh] c f
    by (simp add: rc)
qed

theorem C5_begin_and_reset_clear_deferred_commands_witness:
  "commandBuffers
     (newFootprintBuilder
        \<lparr>commands := [5 \<mapsto> [\<lparr>cbcId = 0, isCmdExecuteCommands = False, secondaryCommandBuffers = []\<rparr>]],
         commandBuffers := [5 \<mapsto> \<lparr>cbBegin = 10, cbEnd = 11, renderPassBegin = 12\<rparr>],
         nextCommandId := 1\<rparr>) 5 = Some \<lparr>cbBegin = 10, cbEnd = 11, renderPassBegin = 12\<rparr> \<and>
   commandsOf (fst (BuildFootprint_VkBeginCommandBuffer
     (newFootprintBuilder
        \<lparr>commands := [5 \<mapsto> [\<lparr>cbcId = 0, isCmdExecuteCommands = False, secondaryCommandBuffers = []\<rparr>]],
         commandBuffers := [5 \<mapsto> \<lparr>cbBegin = 10, cbEnd = 11, renderPassBegin = 12\<rparr>],
         nextCommandId := 1\<rparr>) (NewBehavior [20]) 5)) 5 = [] \<and>
   (case recordCommands (fst (BuildFootprint_VkResetCommandBuffer
     (newFootprintBuilder
        \<lparr>commands := [5 \<mapsto> [\<lparr>cbcId = 0, isCmdExecuteCommands = False, secondaryCommandBuffers = []\<rparr>]],
         commandBuffers := [5 \<mapsto> \<lparr>cbBegin = 10, cbEnd = 11, renderPassBegin = 12\<rparr>],
         nextCommandId := 1\<rparr>) (NewBehavior [20]) 5)) (NewBehavior [21]) [5, 6, 5] of
      (vb', recorded) \<Rightarrow>
        map fst recorded = [5, 5] \<and>
        commandsOf vb' 5 = map snd recorded \<and>
        (\<forall>c \<in> set (commandsOf vb' 5). 1 \<le> cbcId c))"
proof -
  let ?vb = "newFootprintBuilder
        \<lparr>commands := [5 \<mapsto> [\<lparr>cbcId = 0, isCmdExecuteCommands = False, secondaryCommandBuffers = []\<rparr>]],
         commandBuffers := [5 \<mapsto> \<lparr>cbBegin = 10, cbEnd = 11, renderPassBegin = 12\<rparr>],
         nextCommandId := 1\<rparr>"
  have cb: "commandBuffers ?vb 5 = Some \<lparr>cbBegin = 10, cbEnd = 11, renderPassBegin = 12\<rparr>"
    by (simp add: newFootprintBuilder_def)
  obtain vb' recorded where rc:
    "recordCommands (fst (BuildFootprint_VkResetCommandBuffer ?vb (NewBehavior [20]) 5))
       (NewBehavior [21]) [5, 6, 5] = (vb', recorded)"
    by (cases "recordCommands (fst (BuildFootprint_VkResetCommandBuffer ?vb (NewBehavior [20]) 5))
       (NewBehavior [21]) [5, 6, 5]") auto
  have keys: "map fst recorded = [5, 5]"
    using rc
    by (auto simp: BuildFootprint_VkResetCommandBuffer_def newCommand_def vb_read_VkHandle
        vb_read_Label vb_write_Label vb_write_CommandBufferCommand newFootprintBuilder_def
        Let_def split: prod.splits)
  then have all: "filter (\<lambda>(k, c). k = 5) recorded = recorded"
    by (induction recorded) (auto split: prod.splits)
  note inst = C5_begin_and_reset_clear_deferred_commands
      [OF cb, where bh = "NewBehavior [20]" and ?bh2.0 = "NewBehavior [21]" and ks = "[5, 6, 5]",
       unfolded rc prod.case all]
  show ?thesis
    unfolding rc prod.case using inst cb keys by simp
qed
subsection \<open>Presentation\<close>

lemma onlyEmitterChanged_refl: "onlyEmitterChanged vb vb"
  by (simp add: onlyEmitterChanged_def)

lemma onlyEmitterChanged_trans:
  "onlyEmitterChanged a b \<Longrightarrow> onlyEmitterChanged b c \<Longrightarrow> onlyEmitterChanged a c"
  by (cases a; cases b; cases c) (simp add: onlyEmitterChanged_def)

lemma onlyEmitterChanged_emitter: "onlyEmitterChanged vb (vb\<lparr>emitter := e\<rparr>)"
  by (simp add: onlyEmitterChanged_def)

lemma onlyEmitterChanged_fields:
  assumes "onlyEmitterChanged vb vb'"
  shows "images vb' = images vb" "semaphoreSignals vb' = semaphoreSignals vb"
    "swapchainImageAcquired vb' = swapchainImageAcquired vb"
    "swapchainImagePresented vb' = swapchainImagePresented vb"
  using assms by (cases vb; cases vb'; simp add: onlyEmitterChanged_def)+

lemma vb_read_only_emitter:
  "vb_read vb bh cs = (vb', bh', ok) \<Longrightarrow> onlyEmitterChanged vb vb'"
  by (auto simp: vb_read_def onlyEmitterChanged_def split: prod.splits)

lemma vb_read_labelVar: "vb_read vb bh [labelVar x] = (vb, Behavior_Read bh (labelVar x), True)"
  by (cases x) (simp_all add: vb_read_def read_def labelVar_def)

lemma vb_read_SparseImageMemoryBinding:
  "vb_read vb bh [SparseImageMemoryBinding b] =
     (vb, Behavior_Read bh (SparseImageMemoryBinding b), True)"
  by (simp add: vb_read_def read_def)

lemma sparseLoop_state: "\<exists>bh' data'. sparseLoop vb bh data blocks = (vb, bh', data')"
proof (induction blocks arbitrary: bh data)
  case Nil
  show ?case by simp
next
  case (Cons b blocks)
  show ?case
    by (cases bh) (simp_all add: vb_read_SparseImageMemoryBinding Cons.IH)
qed

lemma getImageData_bound_state:
  "\<exists>bh' data logs. getImageData_bound vb bh vkImg = (vb, bh', data, logs) \<and>
      (bh \<noteq> None \<longrightarrow> bh' \<noteq> None)"
proof (cases "images vb vkImg")
  case None
  then show ?thesis by (simp add: getImageData_bound_def)
next
  case (Some img)
  obtain e1 bh1 data logs where g:
    "getBoundData (emitter vb) bh (opaqueData img) 0 vkWholeSize = (e1, bh1, data, logs)"
    by (cases "getBoundData (emitter vb) bh (opaqueData img) 0 vkWholeSize") auto
  then have e: "e1 = emitter vb" and b: "bh \<noteq> None \<longrightarrow> bh1 \<noteq> None"
    by (auto simp: getBoundData_def getSubBindingList_eq Let_def)
  obtain bh2 data2 where s: "sparseLoop vb bh1 data (sparseBlocks img) = (vb, bh2, data2)"
    using sparseLoop_state by blast
  have "bh1 \<noteq> None \<longrightarrow> bh2 \<noteq> None"
  proof -
    have "sparseLoop vb x d bl = (vb', y, d') \<Longrightarrow> x \<noteq> None \<Longrightarrow> y \<noteq> None" for x d bl vb' y d'
      by (induction bl arbitrary: x d) (auto simp: vb_read_SparseImageMemoryBinding)
    then show ?thesis using s by blast
  qed
  then show ?thesis using Some g e b s by (simp add: getImageData_bound_def)
qed

lemma getImageLayoutAndData_known:
  assumes "images vb vkImg = Some img"
  shows "\<exists>bh' data logs. getImageLayoutAndData vb bh vkImg = Inr (vb, bh', layout img, data, logs)"
proof -
  let ?h1 = "if vkImg = 0 then bh else Behavior_Read bh (VkHandle vkImg)"
  have "\<exists>bh2 data logs. getImageData vb (Some ?h1) vkImg = Inr (vb, bh2, data, logs)"
  proof (cases "vkImg = 0")
    case True
    then show ?thesis by (simp add: getImageData_def vb_read_VkHandle)
  next
    case False
    then show ?thesis
      using assms
      apply (simp add: getImageData_def vb_read_VkHandle vb_read_Label)
      using getImageData_bound_state by blast
  qed
  then show ?thesis
    using assms by (auto simp: getImageLayoutAndData_def vb_read_VkHandle)
qed

lemma presentWaitLoop_eq:
  "presentWaitLoop vb e q sems = (vb, e\<lparr>Reads := Reads e @ presentWaitReads vb q sems\<rparr>)"
proof (induction sems arbitrary: e)
  case Nil
  show ?case by (simp add: presentWaitReads_def)
next
  case (Cons s sems)
  show ?case
    by (simp add: vb_read_VkHandle vb_read_labelVar Cons.IH presentWaitReads_def Behavior_Read_def)
qed

lemma presentWaitReads_cong:
  assumes "semaphoreSignals vb' = semaphoreSignals vb"
  shows "presentWaitReads vb' q sems = presentWaitReads vb q sems"
  unfolding presentWaitReads_def assms ..

lemma presentOne_ok:
  assumes p: "presentable f vb0 (vkSw, imgID)" and oe: "onlyEmitterChanged vb0 vb"
  shows "\<exists>vb' bh' logs'.
     presentOne f cmdId q sems (vb, ft, bh, logs) (vkSw, imgID) =
       Inr (vb', ft @ [AddedBehavior (presentExtraBehavior vb0 cmdId q sems (vkSw, imgID))],
            bh', logs') \<and>
     onlyEmitterChanged vb0 vb'"
proof -
  note fl = onlyEmitterChanged_fields [OF oe]
  obtain img where img: "images vb (f vkSw imgID) = Some img"
    using p fl(1) by (auto simp: presentable_def)
  obtain acq where acq: "swapchainImageAcquired vb0 vkSw = Some acq" "unat imgID < length acq"
    using p by (auto simp: presentable_def split: option.splits)
  obtain pres where pres: "swapchainImagePresented vb0 vkSw = Some pres" "unat imgID < length pres"
    using p by (auto simp: presentable_def split: option.splits)
  let ?bh1 = "if vkSw = 0 then bh else Behavior_Read bh (VkHandle vkSw)"
  obtain bh2 data logs2 where g:
    "getImageLayoutAndData vb ?bh1 (f vkSw imgID) = Inr (vb, bh2, layout img, data, logs2)"
    using getImageLayoutAndData_known [OF img] by blast
  obtain vb4 bh4 ok4 where r4:
    "vb_read vb (Behavior_Read bh2 (Label (layout img))) data = (vb4, bh4, ok4)"
    by (cases "vb_read vb (Behavior_Read bh2 (Label (layout img))) data") auto
  have oe4: "onlyEmitterChanged vb0 vb4"
    using oe vb_read_only_emitter [OF r4] by (rule onlyEmitterChanged_trans)
  note fl4 = onlyEmitterChanged_fields [OF oe4]
  have la: "labelAt (swapchainImageAcquired vb4 vkSw) imgID = Inr (acq ! unat imgID)"
    and lp: "labelAt (swapchainImagePresented vb4 vkSw) imgID = Inr (pres ! unat imgID)"
    using acq pres by (simp_all add: labelAt_def fl4)
  have wr: "presentWaitReads vb4 q sems = presentWaitReads vb0 q sems"
    by (rule presentWaitReads_cong [OF fl4(2)])
  have "presentOne f cmdId q sems (vb, ft, bh, logs) (vkSw, imgID) =
      Inr (vb4, ft @ [AddedBehavior (presentExtraBehavior vb0 cmdId q sems (vkSw, imgID))],
           bh4, logs @ logs2)"
    unfolding presentOne_def
    by (simp add: vb_read_VkHandle g vb_read_Label r4 [unfolded Behavior_Read_def]
        presentWaitLoop_eq la lp vb_write_Label wr
        presentExtraBehavior_def acq pres NewBehavior_def Behavior_Read_def Behavior_Write_def)
  then show ?thesis using oe4 by blast
qed

lemma presentLoop_ok:
  assumes "\<forall>sw \<in> set presents. presentable f vb0 sw" and "onlyEmitterChanged vb0 vb"
  shows "\<exists>vb' bh' logs'.
     presentLoop f cmdId q sems (vb, ft, bh, logs) presents =
       Inr (vb', ft @ map (\<lambda>sw. AddedBehavior (presentExtraBehavior vb0 cmdId q sems sw)) presents,
            bh', logs') \<and>
     onlyEmitterChanged vb0 vb'"
  using assms
proof (induction presents arbitrary: vb ft bh logs)
  case Nil
  then show ?case by simp
next
  case (Cons sw presents)
  obtain vkSw imgID where sw: "sw = (vkSw, imgID)" by (cases sw)
  have p: "presentable f vb0 (vkSw, imgID)" using Cons.prems(1) sw by simp
  obtain vb1 bh1 logs1 where one:
    "presentOne f cmdId q sems (vb, ft, bh, logs) (vkSw, imgID) =
       Inr (vb1, ft @ [AddedBehavior (presentExtraBehavior vb0 cmdId q sems (vkSw, imgID))],
            bh1, logs1)"
    and oe1: "onlyEmitterChanged vb0 vb1"
    using presentOne_ok [OF p Cons.prems(2)] by blast
  have rest: "\<forall>sw \<in> set presents. presentable f vb0 sw" using Cons.prems(1) by simp
  obtain vb2 bh2 logs2 where loop:
    "presentLoop f cmdId q sems
        (vb1, ft @ [AddedBehavior (presentExtraBehavior vb0 cmdId q sems (vkSw, imgID))], bh1, logs1)
        presents =
       Inr (vb2, (ft @ [AddedBehavior (presentExtraBehavior vb0 cmdId q sems (vkSw, imgID))]) @
                 map (\<lambda>sw. AddedBehavior (presentExtraBehavior vb0 cmdId q sems sw)) presents,
            bh2, logs2)"
    and oe2: "onlyEmitterChanged vb0 vb2"
    using Cons.IH [OF rest oe1] by blast
  show ?case using one loop oe2 by (simp add: sw)
qed

lemma presentSemaphoreLoop_state: "\<exists>bh'. presentSemaphoreLoop vb bh sems = (vb, bh')"
  by (induction sems arbitrary: bh) (simp_all add: vb_read_VkHandle vb_read_labelVar)

lemma BuildFootprint_VkQueuePresentKHR_ok:
  assumes "\<forall>sw \<in> set presents. presentable f vb sw"
  shows "\<exists>vb' bh' logs.
     BuildFootprint_VkQueuePresentKHR f vb ft bh cmdId q sems presents =
       Inr (vb', ft @ map (\<lambda>sw. AddedBehavior (presentExtraBehavior vb cmdId q sems sw)) presents,
            bh', logs)"
proof -
  obtain bh2 where s: "presentSemaphoreLoop vb (if q = 0 then bh else Behavior_Read bh (VkHandle q)) sems = (vb, bh2)"
    using presentSemaphoreLoop_state by blast
  show ?thesis
    using presentLoop_ok [OF assms onlyEmitterChanged_refl, of cmdId q sems ft bh2 "[]"]
    by (auto simp: BuildFootprint_VkQueuePresentKHR_def vb_read_VkHandle s)
qed

text \<open>
  Claim C6. When every presented image and its acquired and presented labels have
  shadow entries, the arm for \<^verbatim>\<open>VkQueuePresentKHR\<close> returns, and it adds to the
  footprint exactly one extra behavior per presented image, in order. Each of them
  has \<^verbatim>\<open>Alive\<close> set, reads the acquired label of the swapchain image and writes
  its presented label.
\<close>

theorem C6_present_adds_one_alive_behavior_per_image:
  "\<forall>sw \<in> set presents. presentable swapchainImage vb sw \<Longrightarrow>
     (\<exists>vb' bh' logs.
        BuildFootprint_VkQueuePresentKHR swapchainImage vb ft bh cmdId vkQueue waitSems presents =
          Inr (vb',
               ft @ map (\<lambda>sw. AddedBehavior (presentExtraBehavior vb cmdId vkQueue waitSems sw))
                      presents,
               bh', logs)) \<and>
     (\<forall>(vkSw, imgID) \<in> set presents.
        Alive (presentExtraBehavior vb cmdId vkQueue waitSems (vkSw, imgID)) \<and>
        Label (the (swapchainImageAcquired vb vkSw) ! unat imgID)
          \<in> set (Reads (presentExtraBehavior vb cmdId vkQueue waitSems (vkSw, imgID))) \<and>
        Writes (presentExtraBehavior vb cmdId vkQueue waitSems (vkSw, imgID)) =
          [Label (the (swapchainImagePresented vb vkSw) ! unat imgID)])"
proof -
  assume p: "\<forall>sw \<in> set presents. presentable swapchainImage vb sw"
  have "\<forall>(vkSw, imgID) \<in> set presents.
        Alive (presentExtraBehavior vb cmdId vkQueue waitSems (vkSw, imgID)) \<and>
        Label (the (swapchainImageAcquired vb vkSw) ! unat imgID)
          \<in> set (Reads (presentExtraBehavior vb cmdId vkQueue waitSems (vkSw, imgID))) \<and>
        Writes (presentExtraBehavior vb cmdId vkQueue waitSems (vkSw, imgID)) =
          [Label (the (swapchainImagePresented vb vkSw) ! unat imgID)]"
    by (simp add: presentExtraBehavior_def split: prod.splits)
  then show ?thesis
    using BuildFootprint_VkQueuePresentKHR_ok [OF p, of ft bh cmdId vkQueue waitSems] by blast
qed

theorem C6_present_adds_one_alive_behavior_per_image_witness:
  "presentable (\<lambda>vkSw imgID. 20)
      (newFootprintBuilder
         \<lparr>images := [20 \<mapsto> \<lparr>layout = 30,
                                  opaqueData = [mkBinding 0 vkWholeSize (BackingLabel 31)],
                                  sparseData = []\<rparr>],
          swapchainImageAcquired := [9 \<mapsto> [40, 41]],
          swapchainImagePresented := [9 \<mapsto> [50, 51]]\<rparr>) (9, 1) \<and>
   (\<exists>vb' bh' logs.
      BuildFootprint_VkQueuePresentKHR (\<lambda>vkSw imgID. 20)
        (newFootprintBuilder
           \<lparr>images := [20 \<mapsto> \<lparr>layout = 30,
                                    opaqueData = [mkBinding 0 vkWholeSize (BackingLabel 31)],
                                    sparseData = []\<rparr>],
            swapchainImageAcquired := [9 \<mapsto> [40, 41]],
            swapchainImagePresented := [9 \<mapsto> [50, 51]]\<rparr>)
        [] (NewBehavior [77]) 77 3 [] [(9, 1)] =
      Inr (vb',
           [AddedBehavior \<lparr>Owner = [77], Reads = [Label 41], Writes = [Label 51],
                           Alive = True, Aborted = False\<rparr>],
           bh', logs))"
proof -
  let ?vb = "newFootprintBuilder
         \<lparr>images := [20 \<mapsto> \<lparr>layout = 30,
                                  opaqueData = [mkBinding 0 vkWholeSize (BackingLabel 31)],
                                  sparseData = []\<rparr>],
          swapchainImageAcquired := [9 \<mapsto> [40, 41]],
          swapchainImagePresented := [9 \<mapsto> [50, 51]]\<rparr>"
  have p: "\<forall>sw \<in> set [(9, 1)]. presentable (\<lambda>vkSw imgID. 20) ?vb sw"
    by (simp add: presentable_def newFootprintBuilder_def)
  have e: "presentExtraBehavior ?vb 77 3 [] (9, 1) =
      \<lparr>Owner = [77], Reads = [Label 41], Writes = [Label 51], Alive = True, Aborted = False\<rparr>"
    by (simp add: presentExtraBehavior_def presentWaitReads_def newFootprintBuilder_def)
  show ?thesis
    using C6_present_adds_one_alive_behavior_per_image
      [OF p, where ft = "[]" and bh = "NewBehavior [77]" and cmdId = 77 and vkQueue = 3
         and waitSems = "[]"] p
    by (simp add: e)
qed

text \<open>
  Claim C9 is not what the code does. \<^verbatim>\<open>getImageData\<close> with a behavior, on an
  image handle that is not null and has no entry in \<^verbatim>\<open>vb.images\<close>, dereferences
  the nil pointer \<^verbatim>\<open>vb.images[vkImg]\<close> for its layout and panics; the nil check
  of the function comes after that line and is only reached without a behavior.
\<close>

theorem C9_getImageData_panics_on_unknown_image:
  "getImageData newFootprintBuilder (Some (NewBehavior [3])) 7 = Inl NilPointerDereference \<and>
   getImageData newFootprintBuilder None 7 = Inr (newFootprintBuilder, None, [], [])"
  by (simp add: getImageData_def getImageData_bound_def vb_read_VkHandle newFootprintBuilder_def)
subsection \<open>Rolling out the executed subcommands\<close>


lemma vb_modify_labelVar:
  "vb_modify vb bh [labelVar x] =
     (vb, Behavior_Write (Behavior_Read bh (labelVar x)) (labelVar x), True)"
  by (cases x) (simp_all add: vb_modify_def modify_def read_def write'_def labelVar_def)

lemma waitSemaphoreLoop_state: "\<exists>bh'. waitSemaphoreLoop vb bh sps = (vb, bh')"
  by (induction sps arbitrary: bh) (simp_all add: vb_read_VkHandle vb_modify_labelVar)




lemma began_True_id: "began si \<Longrightarrow> si\<lparr>began := True\<rparr> = si"
  by (cases si) simp

lemma updateCurrentCommand_eq:
  "updateCurrentCommand qei fci =
     (if length (indices fci) = 4 \<and> capacity (currentCommand qei) < 3
      then Inl SliceBoundsOutOfRange
      else Inr (qei\<lparr>currentCommand := fci\<rparr>, indexLengthLog (indices fci)))"
  by (simp add: updateCurrentCommand_def indexLengthLog_def)

lemma rollOutStep_unfold:
  assumes si: "submitInfos vb sid = Some si"
    and fci: "indices fci = sid # idx"
  shows "rollOutStep vb ft fci =
     (let si1 = si\<lparr>began := True\<rparr>;
          ft1 = ft @ (if began si then []
                      else [AddedBehavior (snd (waitSemaphoreLoop vb (NewBehavior [sid])
                                                  (waitSemaphores si)))])
      in case pendingCommands si of
           [] \<Rightarrow> Inl IndexOutOfRange
         | sc # rest \<Rightarrow>
             if sid # idx = subCmdIdx sc
             then
               (case executionStates vb (queue si) of
                  None \<Rightarrow> Inl NilPointerDereference
                | Some execInfo \<Rightarrow>
                    if length idx = 3 \<and> capacity (currentCommand execInfo) < 3
                    then Inl SliceBoundsOutOfRange
                    else
                    (let vb3 = vb\<lparr>executionStates := (executionStates vb)(queue si \<mapsto>
                                      execInfo\<lparr>currentSubmitInfo := Some sid,
                                                currentCommand := fci\<rparr>),
                                   submitInfos := (submitInfos vb)(sid \<mapsto>
                                      si1\<lparr>pendingCommands := rest\<rparr>)\<rparr>;
                         logs1 = indexLengthLog (sid # idx)
                     in if rest = []
                        then (case terminalBehavior vb3 (si1\<lparr>pendingCommands := rest\<rparr>) sid of
                                Inl p \<Rightarrow> Inl p
                              | Inr (vb4, bh) \<Rightarrow>
                                  Inr (vb4, ft1 @ [RanCommand sc, AddedBehavior bh], logs1, True))
                        else Inr (vb3, ft1 @ [RanCommand sc], logs1, True)))
             else Inr (vb\<lparr>submitInfos := (submitInfos vb)(sid \<mapsto> si1)\<rparr>, ft1,
                       [LogExecutionOrderDiffers (sid # idx) (subCmdIdx sc)], False))"
proof -
  have u: "updateCurrentCommand q fci =
      (if length idx = 3 \<and> capacity (currentCommand q) < 3
       then Inl SliceBoundsOutOfRange
       else Inr (q\<lparr>currentCommand := fci\<rparr>, indexLengthLog (sid # idx)))" for q
    using fci by (simp add: updateCurrentCommand_eq)
  show ?thesis
  proof (cases "began si")
    case True
    have m: "(submitInfos vb)(sid \<mapsto> si) = submitInfos vb"
      using si by (rule map_upd_triv)
    show ?thesis
      using True si
      by (auto simp: rollOutStep_def fci began_True_id m u Let_def
          split: list.splits option.splits sum.splits prod.splits)
  next
    case False
    obtain bb where w: "waitSemaphoreLoop vb (NewBehavior [sid]) (waitSemaphores si) = (vb, bb)"
      using waitSemaphoreLoop_state by blast
    show ?thesis
      using False si
      by (auto simp: rollOutStep_def fci w u Let_def
          split: list.splits option.splits sum.splits prod.splits)
  qed
qed










lemma rollOutStep_slice_panic:
  assumes si: "submitInfos vb sid = Some si"
    and fci: "indices fci = sid # idx"
    and pend: "pendingCommands si = sc # rest"
    and eq: "subCmdIdx sc = sid # idx"
    and ei: "executionStates vb (queue si) = Some execInfo"
    and len: "length idx = 3"
    and cap: "capacity (currentCommand execInfo) < 3"
  shows "rollOutStep vb ft fci = Inl SliceBoundsOutOfRange"
  using pend eq ei len cap by (simp add: rollOutStep_unfold [OF si fci] Let_def)








end
